theory Spec2Isabelle
  imports Main "HOL-Library.Word"
begin

unbundle bit_operations_syntax

section \<open>UART LED controller: data model\<close>

text \<open>
  The firmware keeps its whole state in file-level globals: the render buffer \<open>leds\<close>,
  the layout (\<open>active_strips\<close>, \<open>leds_per_strip\<close>, \<open>total_leds\<close>), the brightness and
  the statistics counters. The model collects them in one record and passes it through
  every handler. Fixed-width C integers are words of the same width, so \<open>+\<close> wraps as in
  the firmware. Console logging (\<open>Serial.printf\<close>, \<open>DEBUG_PRINT\<close>), the hardware flush
  \<open>FastLED.show()\<close> and the timing values read from \<open>micros()\<close>/\<open>millis()\<close> do not
  influence any modelled variable and are left out; the response packets written by
  \<open>send_response\<close> are kept in \<open>tx\<close>.
\<close>

type_synonym u8 = "8 word"
type_synonym u16 = "16 word"
type_synonym u32 = "32 word"

definition MAX_STRIPS :: u8 where
  "MAX_STRIPS = 8"

definition MAX_LEDS_PER_STRIP :: u16 where
  "MAX_LEDS_PER_STRIP = 500"

definition MAX_TOTAL_LEDS :: u16 where
  "MAX_TOTAL_LEDS = ucast MAX_STRIPS * MAX_LEDS_PER_STRIP"

definition DEFAULT_STRIPS :: u8 where
  "DEFAULT_STRIPS = 8"

definition DEFAULT_LEDS_PER_STRIP :: u16 where
  "DEFAULT_LEDS_PER_STRIP = 140"

definition CMD_SET_PIXEL :: u8 where "CMD_SET_PIXEL = 0x01"
definition CMD_SET_BRIGHTNESS :: u8 where "CMD_SET_BRIGHTNESS = 0x02"
definition CMD_SHOW :: u8 where "CMD_SHOW = 0x03"
definition CMD_CLEAR :: u8 where "CMD_CLEAR = 0x04"
definition CMD_SET_RANGE :: u8 where "CMD_SET_RANGE = 0x05"
definition CMD_SET_ALL :: u8 where "CMD_SET_ALL = 0x06"
definition CMD_CONFIG :: u8 where "CMD_CONFIG = 0x07"
definition CMD_ECHO :: u8 where "CMD_ECHO = 0xFE"
definition CMD_PING :: u8 where "CMD_PING = 0xFF"

definition PACKET_START :: u8 where "PACKET_START = 0xAA"
definition PACKET_END :: u8 where "PACKET_END = 0x55"

text \<open>\<open>MAX_PACKET_SIZE\<close> is a \<open>size_t\<close>: one command byte plus three bytes per LED.\<close>

definition MAX_PACKET_SIZE :: nat where
  "MAX_PACKET_SIZE = 1 + unat MAX_TOTAL_LEDS * 3"

definition RESP_OK :: u8 where "RESP_OK = 0x00"
definition RESP_ERROR :: u8 where "RESP_ERROR = 0x01"
definition RESP_STATUS :: u8 where "RESP_STATUS = 0x02"

datatype CRGB = CRGB (red: u8) (green: u8) (blue: u8)

definition Black :: CRGB where
  "Black = CRGB 0 0 0"

record engine =
  leds :: "CRGB list"
  active_strips :: u8
  leds_per_strip :: u16
  total_leds :: u16
  global_brightness :: u8
  packets_received :: u32
  frames_rendered :: u32
  packet_errors :: u32
  config_commands_received :: u32
  set_all_commands_received :: u32
  total_bytes_received :: u32
  debug_logging :: bool
  status_led :: bool
  tx :: "u8 list"

text \<open>
  The state in which \<open>setup()\<close> leaves the globals: the defaults of the declarations,
  the status LED low, and the render buffer all black after the final \<open>FastLED.clear()\<close>.
\<close>

definition initial_engine :: engine where
  "initial_engine =
     \<lparr> leds = replicate (unat MAX_TOTAL_LEDS) Black,
       active_strips = DEFAULT_STRIPS,
       leds_per_strip = DEFAULT_LEDS_PER_STRIP,
       total_leds = ucast DEFAULT_STRIPS * DEFAULT_LEDS_PER_STRIP,
       global_brightness = 50,
       packets_received = 0,
       frames_rendered = 0,
       packet_errors = 0,
       config_commands_received = 0,
       set_all_commands_received = 0,
       total_bytes_received = 0,
       debug_logging = False,
       status_led = False,
       tx = [] \<rparr>"

section \<open>Response packets\<close>

text \<open>
  \<open>send_response\<close> writes start marker, 16-bit little-endian length (response code plus
  message), the code, the message bytes and the end marker.
\<close>

definition response_frame :: "u8 \<Rightarrow> string \<Rightarrow> u8 list" where
  "response_frame response_code message =
     (let payload_len = (1 :: u16) + of_nat (length message)
      in [PACKET_START, ucast (payload_len AND 0xFF), ucast (drop_bit 8 payload_len AND 0xFF),
          response_code]
         @ map (\<lambda>c. of_nat (of_char c)) message @ [PACKET_END])"

definition send_response :: "u8 \<Rightarrow> string \<Rightarrow> engine \<Rightarrow> engine" where
  "send_response response_code message s = s\<lparr>tx := tx s @ response_frame response_code message\<rparr>"

section \<open>Layout mapping\<close>

text \<open>
  \<open>logical_to_physical\<close> divides by \<open>leds_per_strip\<close>; the division traps when the
  divisor is zero, which the model reports as \<open>None\<close>. The comparison
  \<open>strip >= active_strips\<close> and the final \<open>strip * MAX_LEDS_PER_STRIP + offset\<close> are
  computed in \<open>int\<close> and stored into \<open>uint16_t\<close>, which is arithmetic modulo \<open>2^16\<close>.
\<close>

definition logical_to_physical :: "engine \<Rightarrow> u16 \<Rightarrow> u16 option" where
  "logical_to_physical s logical =
     (if leds_per_strip s = 0 then None
      else
        let strip = logical div leds_per_strip s;
            offset = logical mod leds_per_strip s
        in if ucast (active_strips s) \<le> strip
           then Some ((ucast (active_strips s) - 1) * MAX_LEDS_PER_STRIP + (leds_per_strip s - 1))
           else Some (strip * MAX_LEDS_PER_STRIP + offset))"

text \<open>The bounds of a legal layout, and the full configuration invariant.\<close>

definition layout_ok :: "engine \<Rightarrow> bool" where
  "layout_ok s \<longleftrightarrow>
     1 \<le> active_strips s \<and> active_strips s \<le> MAX_STRIPS \<and>
     1 \<le> leds_per_strip s \<and> leds_per_strip s \<le> MAX_LEDS_PER_STRIP"

definition config_ok :: "engine \<Rightarrow> bool" where
  "config_ok s \<longleftrightarrow> layout_ok s \<and> total_leds s = ucast (active_strips s) * leds_per_strip s"

text \<open>
  A physical offset lies in the active region when its strip component is below
  \<open>active_strips\<close> and its offset component below \<open>leds_per_strip\<close>.
\<close>

definition in_active :: "engine \<Rightarrow> nat \<Rightarrow> bool" where
  "in_active s p \<longleftrightarrow>
     p div unat MAX_LEDS_PER_STRIP < unat (active_strips s) \<and>
     p mod unat MAX_LEDS_PER_STRIP < unat (leds_per_strip s)"

section \<open>Render buffer writes and iteration\<close>

text \<open>
  \<open>leds\<close> is a C array of \<open>MAX_TOTAL_LEDS\<close> elements. A store beyond its end is
  undefined behaviour; the model makes it the value \<open>None\<close>, and so every handler
  returns an \<open>option\<close>.
\<close>

definition write_led :: "nat \<Rightarrow> CRGB \<Rightarrow> CRGB list \<Rightarrow> CRGB list option" where
  "write_led p c ls = (if p < length ls then Some (ls[p := c]) else None)"

text \<open>A counted \<open>for\<close> loop: the body runs once for each index, in order.\<close>

primrec for_each :: "('i \<Rightarrow> 'a \<Rightarrow> 'a option) \<Rightarrow> 'i list \<Rightarrow> 'a \<Rightarrow> 'a option" where
  "for_each body [] a = Some a"
| "for_each body (i # is) a =
     (case body i a of None \<Rightarrow> None | Some a' \<Rightarrow> for_each body is a')"

text \<open>The statement \<open>leds[logical_to_physical(logical)] = c\<close>.\<close>

definition set_logical :: "engine \<Rightarrow> u16 \<Rightarrow> CRGB \<Rightarrow> CRGB list \<Rightarrow> CRGB list option" where
  "set_logical s logical c ls =
     (case logical_to_physical s logical of
        None \<Rightarrow> None
      | Some p \<Rightarrow> write_led (unat p) c ls)"

text \<open>Big-endian 16-bit field: \<open>(uint16_t(hi) << 8) | lo\<close>.\<close>

definition be16 :: "u8 \<Rightarrow> u8 \<Rightarrow> u16" where
  "be16 hi lo = push_bit 8 (ucast hi) OR ucast lo"

text \<open>The pixel read from \<open>data[base], data[base + 1], data[base + 2]\<close>.\<close>

definition rgb_at :: "u8 list \<Rightarrow> nat \<Rightarrow> CRGB" where
  "rgb_at data base = CRGB (data ! base) (data ! (base + 1)) (data ! (base + 2))"

section \<open>Command handlers\<close>

definition cmd_echo :: "u8 list \<Rightarrow> engine \<Rightarrow> engine" where
  "cmd_echo data s =
     (let response_len = (1 :: u16) + of_nat (length data)
      in s\<lparr>tx := tx s @ [PACKET_START, ucast (response_len AND 0xFF),
                          ucast (drop_bit 8 response_len AND 0xFF), RESP_OK]
                       @ data @ [PACKET_END]\<rparr>)"

definition cmd_ping :: "engine \<Rightarrow> engine" where
  "cmd_ping s = send_response RESP_OK ''PONG'' (s\<lparr>status_led := \<not> status_led s\<rparr>)"

definition cmd_set_pixel :: "u8 list \<Rightarrow> engine \<Rightarrow> engine option" where
  "cmd_set_pixel data s =
     (if length data < 6 then Some s
      else
        let pixel = be16 (data ! 1) (data ! 2);
            c = CRGB (data ! 3) (data ! 4) (data ! 5)
        in if pixel < total_leds s
           then map_option (\<lambda>ls. s\<lparr>leds := ls\<rparr>) (set_logical s pixel c (leds s))
           else Some s)"

definition cmd_set_brightness :: "u8 list \<Rightarrow> engine \<Rightarrow> engine" where
  "cmd_set_brightness data s =
     (if length data < 2 then s else s\<lparr>global_brightness := data ! 1\<rparr>)"

text \<open>
  \<open>CMD_CLEAR\<close>: for every active strip, every offset below \<open>MAX_LEDS_PER_STRIP\<close>. The
  index \<open>strip * MAX_LEDS_PER_STRIP + offset\<close> is an \<open>int\<close> and does not wrap.
\<close>

definition clear_strip :: "nat \<Rightarrow> nat \<Rightarrow> CRGB list \<Rightarrow> CRGB list option" where
  "clear_strip first strip ls =
     for_each (\<lambda>offset. write_led (strip * unat MAX_LEDS_PER_STRIP + offset) Black)
       [first ..< unat MAX_LEDS_PER_STRIP] ls"

definition cmd_clear :: "engine \<Rightarrow> engine option" where
  "cmd_clear s =
     map_option (\<lambda>ls. s\<lparr>leds := ls\<rparr>)
       (for_each (clear_strip 0) [0 ..< unat (active_strips s)] (leds s))"

text \<open>
  The body of the \<open>CMD_SET_RANGE\<close> loop, with its \<open>break\<close> when the logical index
  reaches \<open>total_leds\<close>; \<open>logical = start + i\<close> is a \<open>uint16_t\<close>.
\<close>

primrec set_range_loop :: "engine \<Rightarrow> u8 list \<Rightarrow> u16 \<Rightarrow> nat list \<Rightarrow> CRGB list \<Rightarrow> CRGB list option" where
  "set_range_loop s data start [] ls = Some ls"
| "set_range_loop s data start (i # is) ls =
     (let logical = start + of_nat i
      in if total_leds s \<le> logical then Some ls
         else case set_logical s logical (rgb_at data (4 + i * 3)) ls of
                None \<Rightarrow> None
              | Some ls' \<Rightarrow> set_range_loop s data start is ls')"

definition cmd_set_range :: "u8 list \<Rightarrow> engine \<Rightarrow> engine option" where
  "cmd_set_range data s =
     (if length data < 4 then Some s
      else
        let start = be16 (data ! 1) (data ! 2)
        in if total_leds s \<le> start then Some s
           else
             let count = data ! 3;
                 expected = 4 + unat count * 3
             in if length data < expected then Some s
                else
                  let count' = (if unat (total_leds s) < unat start + unat count
                                then (ucast (total_leds s - start) :: u8) else count)
                  in map_option (\<lambda>ls. s\<lparr>leds := ls\<rparr>)
                       (set_range_loop s data start [0 ..< unat count'] (leds s)))"

text \<open>
  \<open>CMD_SET_ALL\<close>: the size check is \<open>length < expected\<close>; then one write per logical
  pixel, then the tail of every active strip is blacked, then \<open>frames_rendered++\<close> and
  an acknowledgment for the first three frames.
\<close>

definition cmd_set_all :: "u8 list \<Rightarrow> engine \<Rightarrow> engine option" where
  "cmd_set_all data s0 =
     (let s = s0\<lparr>set_all_commands_received := set_all_commands_received s0 + 1\<rparr>;
          expected = 1 + unat (total_leds s) * 3
      in if length data < expected
         then Some (send_response RESP_ERROR ''SIZE_MISMATCH''
                      (s\<lparr>packet_errors := packet_errors s + 1\<rparr>))
         else
           case for_each (\<lambda>logical. set_logical s (of_nat logical) (rgb_at data (1 + logical * 3)))
                  [0 ..< unat (total_leds s)] (leds s) of
             None \<Rightarrow> None
           | Some ls1 \<Rightarrow>
               (case for_each (clear_strip (unat (leds_per_strip s)))
                       [0 ..< unat (active_strips s)] ls1 of
                  None \<Rightarrow> None
                | Some ls2 \<Rightarrow>
                    let s' = s\<lparr>leds := ls2, frames_rendered := frames_rendered s + 1\<rparr>
                    in Some (if frames_rendered s' \<le> 3
                             then send_response RESP_OK ''FRAME_OK'' s' else s')))"

text \<open>
  \<open>CMD_CONFIG\<close>: three validation exits, then the layout is stored, the whole buffer is
  blacked when the layout changed, and an optional fifth byte sets \<open>debug_logging\<close>.
\<close>

definition cmd_config :: "u8 list \<Rightarrow> engine \<Rightarrow> engine option" where
  "cmd_config data s0 =
     (let s = s0\<lparr>config_commands_received := config_commands_received s0 + 1\<rparr>
      in if length data < 4 then Some (send_response RESP_ERROR ''CONFIG_TOO_SHORT'' s)
         else
           let new_strips = data ! 1;
               new_len = be16 (data ! 2) (data ! 3)
           in if new_strips = 0 \<or> MAX_STRIPS < new_strips
              then Some (send_response RESP_ERROR ''INVALID_STRIPS'' s)
              else if new_len = 0 \<or> MAX_LEDS_PER_STRIP < new_len
              then Some (send_response RESP_ERROR ''INVALID_LENGTH'' s)
              else
                let config_changed = (active_strips s \<noteq> new_strips \<or> leds_per_strip s \<noteq> new_len);
                    s1 = s\<lparr>active_strips := new_strips, leds_per_strip := new_len,
                           total_leds := ucast new_strips * new_len\<rparr>;
                    dbg = (\<lambda>t. if 5 \<le> length data then t\<lparr>debug_logging := (data ! 4 \<noteq> 0)\<rparr> else t)
                in if config_changed
                   then map_option
                          (\<lambda>ls. dbg (send_response RESP_OK ''CONFIG_CHANGED'' (s1\<lparr>leds := ls\<rparr>)))
                          (for_each (\<lambda>i. write_led i Black) [0 ..< unat MAX_TOTAL_LEDS] (leds s1))
                   else Some (dbg (send_response RESP_OK ''CONFIG_OK'' s1)))"

section \<open>Command dispatch\<close>

definition process_command :: "u8 list \<Rightarrow> engine \<Rightarrow> engine option" where
  "process_command data s0 =
     (if length data = 0 then Some s0
      else
        let s = s0\<lparr>total_bytes_received := total_bytes_received s0 + of_nat (length data),
                   packets_received := packets_received s0 + 1\<rparr>;
            cmd = data ! 0
        in if cmd = CMD_ECHO then Some (cmd_echo data s)
           else if cmd = CMD_PING then Some (cmd_ping s)
           else if cmd = CMD_SET_PIXEL then cmd_set_pixel data s
           else if cmd = CMD_SET_BRIGHTNESS then Some (cmd_set_brightness data s)
           else if cmd = CMD_SHOW then Some s
           else if cmd = CMD_CLEAR then cmd_clear s
           else if cmd = CMD_SET_RANGE then cmd_set_range data s
           else if cmd = CMD_SET_ALL then cmd_set_all data s
           else if cmd = CMD_CONFIG then cmd_config data s
           else Some (s\<lparr>packet_errors := packet_errors s + 1\<rparr>))"

section \<open>Framed-stream reader\<close>

text \<open>
  One pass of \<open>loop()\<close> over the bytes waiting in the serial receive buffer \<open>rx\<close>. The
  model takes the receive buffer as it is when \<open>loop()\<close> starts: no byte arrives during
  the bounded wait, so a packet whose payload and end marker are not all present ends in
  the timeout branch. The periodic statistics printout is console output only.
\<close>

definition loop :: "engine \<times> u8 list \<Rightarrow> (engine \<times> u8 list) option" where
  "loop st =
     (let s = fst st; rx = snd st
      in if 4 \<le> length rx
         then
           let start = rx ! 0; rx1 = drop 1 rx
           in if start = PACKET_START
              then
                let len_low = rx1 ! 0;
                    len_high = rx1 ! 1;
                    payload_len = (ucast len_low OR push_bit 8 (ucast len_high) :: u16);
                    rx2 = drop 2 rx1
                in if MAX_PACKET_SIZE < unat payload_len
                   then Some (s\<lparr>packet_errors := packet_errors s + 1\<rparr>, [])
                   else if length rx2 < unat payload_len + 1
                   then Some (s\<lparr>packet_errors := packet_errors s + 1\<rparr>, rx2)
                   else
                     let uart_buffer = take (unat payload_len) rx2;
                         end_marker = rx2 ! unat payload_len;
                         rx3 = drop (unat payload_len + 1) rx2
                     in if end_marker \<noteq> PACKET_END
                        then Some (s\<lparr>packet_errors := packet_errors s + 1\<rparr>, rx3)
                        else map_option (\<lambda>s'. (s', rx3)) (process_command uart_buffer s)
              else Some (s\<lparr>packet_errors := packet_errors s + 1\<rparr>, rx1)
         else Some st)"

text \<open>
  The framed-stream wire format of a packet:
  start marker, little-endian 16-bit payload length, payload, end marker.
\<close>

definition frame_packet :: "u8 list \<Rightarrow> u8 list" where
  "frame_packet payload =
     (let n = (of_nat (length payload) :: u16)
      in [PACKET_START, ucast (n AND 0xFF), ucast (drop_bit 8 n)] @ payload @ [PACKET_END])"

section \<open>Reachable states\<close>

text \<open>
  The engine starts in \<open>initial_engine\<close>; afterwards its state changes only when
  \<open>process_command\<close> runs on some buffer or when the reader counts a framing error.
\<close>

inductive reachable :: "engine \<Rightarrow> bool" where
  boot: "reachable initial_engine"
| command: "reachable s \<Longrightarrow> process_command data s = Some s' \<Longrightarrow> reachable s'"
| framing_error: "reachable s \<Longrightarrow> reachable (s\<lparr>packet_errors := packet_errors s + 1\<rparr>)"

code_pred reachable .

text \<open>
  The invariant carried by every reachable state: a legal configuration, a buffer of
  the declared size, and black in every slot outside the active region.
\<close>

definition engine_inv :: "engine \<Rightarrow> bool" where
  "engine_inv s \<longleftrightarrow>
     config_ok s \<and> length (leds s) = unat MAX_TOTAL_LEDS \<and>
     (\<forall>p \<in> {..< unat MAX_TOTAL_LEDS}. \<not> in_active s p \<longrightarrow> leds s ! p = Black)"

text \<open>
  The physical offset read as a number, for stating facts about buffer indices
  (\<open>0\<close> stands in where the mapping is undefined; it is defined for every legal layout).
\<close>

definition phys :: "engine \<Rightarrow> u16 \<Rightarrow> nat" where
  "phys s i = (case logical_to_physical s i of None \<Rightarrow> 0 | Some p \<Rightarrow> unat p)"

section \<open>Arithmetic of the layout\<close>

lemma unat_MAX_LEDS_PER_STRIP: "unat MAX_LEDS_PER_STRIP = 500"
  by (simp add: MAX_LEDS_PER_STRIP_def)

lemma unat_MAX_TOTAL_LEDS: "unat MAX_TOTAL_LEDS = 4000"
  by (simp add: MAX_TOTAL_LEDS_def MAX_STRIPS_def MAX_LEDS_PER_STRIP_def)

lemma MAX_PACKET_SIZE_eq: "MAX_PACKET_SIZE = 12001"
  by (simp add: MAX_PACKET_SIZE_def unat_MAX_TOTAL_LEDS)

lemma unat_ucast_u8_u16: "unat (ucast (w :: u8) :: u16) = unat w"
proof -
  have "unat w < 2 ^ 8" using unsigned_less [of w] by simp
  then have "unat w < 2 ^ 16" by simp
  then show ?thesis by (simp add: unsigned_ucast_eq take_bit_nat_eq_self)
qed

lemma layout_ok_nat:
  "layout_ok s \<longleftrightarrow> 1 \<le> unat (active_strips s) \<and> unat (active_strips s) \<le> 8 \<and>
     1 \<le> unat (leds_per_strip s) \<and> unat (leds_per_strip s) \<le> 500"
  by (simp add: layout_ok_def MAX_STRIPS_def MAX_LEDS_PER_STRIP_def word_le_nat_alt)

lemma unat_u16_small: "n < 65536 \<Longrightarrow> unat (of_nat n :: u16) = n"
  by (simp add: unat_of_nat)

lemma unat_strip_offset:
  assumes "st < 8" "off < 500"
  shows "unat ((of_nat st :: u16) * 500 + of_nat off) = st * 500 + off"
proof -
  have "st * 500 + off < 65536" using assms by simp
  then have "unat (of_nat (st * 500 + off) :: u16) = st * 500 + off"
    by (rule unat_u16_small)
  then show ?thesis by simp
qed

lemma unat_total_leds:
  assumes "config_ok s"
  shows "unat (total_leds s) = unat (active_strips s) * unat (leds_per_strip s)"
proof -
  let ?a = "unat (active_strips s)" and ?l = "unat (leds_per_strip s)"
  from assms have a: "?a \<le> 8" and l: "?l \<le> 500"
    by (simp_all add: config_ok_def layout_ok_nat)
  have "?a * ?l \<le> 8 * 500" using a l by (rule mult_le_mono)
  then have small: "?a * ?l < 65536" by simp
  have "total_leds s = of_nat (?a * ?l)"
    using assms by (simp add: config_ok_def)
  then show ?thesis using small by (simp add: unat_u16_small del: of_nat_mult)
qed


lemma l2p_nat:
  assumes "layout_ok s"
  shows "\<exists>p. logical_to_physical s i = Some p \<and>
     unat p = (if unat (active_strips s) \<le> unat i div unat (leds_per_strip s)
               then (unat (active_strips s) - 1) * 500 + (unat (leds_per_strip s) - 1)
               else (unat i div unat (leds_per_strip s)) * 500 + unat i mod unat (leds_per_strip s))"
proof -
  let ?a = "unat (active_strips s)" and ?l = "unat (leds_per_strip s)" and ?n = "unat i"
  from assms have a: "1 \<le> ?a" "?a \<le> 8" and l: "1 \<le> ?l" "?l \<le> 500"
    by (simp_all add: layout_ok_nat)
  have nz: "leds_per_strip s \<noteq> 0" using l by (auto simp: unat_0_iff [symmetric])
  have cmp: "(ucast (active_strips s) \<le> i div leds_per_strip s) \<longleftrightarrow> ?a \<le> ?n div ?l"
    by (simp add: word_le_nat_alt unat_ucast_u8_u16 unat_div)
  show ?thesis
  proof (cases "?a \<le> ?n div ?l")
    case True
    have e1: "ucast (active_strips s) - (1 :: u16) = of_nat (?a - 1)"
      using a by (simp add: of_nat_diff)
    have e2: "leds_per_strip s - 1 = of_nat (?l - 1)"
      using l by (simp add: of_nat_diff)
    have "unat ((of_nat (?a - 1) :: u16) * 500 + of_nat (?l - 1)) = (?a - 1) * 500 + (?l - 1)"
      using a l by (intro unat_strip_offset) auto
    with True nz cmp show ?thesis
      by (simp add: logical_to_physical_def Let_def MAX_LEDS_PER_STRIP_def e1 e2)
  next
    case False
    have e1: "i div leds_per_strip s = of_nat (?n div ?l)"
      by (simp add: word_arith_nat_div)
    have e2: "i mod leds_per_strip s = of_nat (?n mod ?l)"
      by (simp add: word_arith_nat_mod)
    have "?n mod ?l < ?l" using l by simp
    then have "?n mod ?l < 500" using l by linarith
    moreover have "?n div ?l < 8" using False a by linarith
    ultimately have "unat ((of_nat (?n div ?l) :: u16) * 500 + of_nat (?n mod ?l)) = (?n div ?l) * 500 + ?n mod ?l"
      by (rule unat_strip_offset [rotated])
    with False nz cmp show ?thesis
      by (simp add: logical_to_physical_def Let_def MAX_LEDS_PER_STRIP_def e1 e2)
  qed
qed


lemma l2p_Some_phys:
  assumes "layout_ok s"
  shows "\<exists>p. logical_to_physical s i = Some p \<and> unat p = phys s i"
proof -
  from l2p_nat [OF assms, of i] obtain p where "logical_to_physical s i = Some p" by blast
  then show ?thesis by (simp add: phys_def)
qed

lemma phys_eq:
  "layout_ok s \<Longrightarrow> phys s i =
     (if unat (active_strips s) \<le> unat i div unat (leds_per_strip s)
      then (unat (active_strips s) - 1) * 500 + (unat (leds_per_strip s) - 1)
      else (unat i div unat (leds_per_strip s)) * 500 + unat i mod unat (leds_per_strip s))"
  using l2p_nat [of s i] by (auto simp: phys_def)

lemma div_less_of_less_mult:
  "(n :: nat) < a * l \<Longrightarrow> n div l < a"
  by (simp add: less_mult_imp_div_less)

lemma phys_in_range:
  assumes "config_ok s" "i < total_leds s"
  shows "phys s i = (unat i div unat (leds_per_strip s)) * 500 + unat i mod unat (leds_per_strip s)"
    and "unat i div unat (leds_per_strip s) < unat (active_strips s)"
    and "unat i mod unat (leds_per_strip s) < unat (leds_per_strip s)"
proof -
  let ?a = "unat (active_strips s)" and ?l = "unat (leds_per_strip s)" and ?n = "unat i"
  from assms have lay: "layout_ok s" by (simp add: config_ok_def)
  then have l: "1 \<le> ?l" "?l \<le> 500" by (simp_all add: layout_ok_nat)
  have "?n < ?a * ?l"
    using assms by (simp add: word_less_nat_alt unat_total_leds)
  then show d: "?n div ?l < ?a" by (rule div_less_of_less_mult)
  show "?n mod ?l < ?l" using l by simp
  show "phys s i = (?n div ?l) * 500 + ?n mod ?l"
    using d by (simp add: phys_eq [OF lay])
qed

lemma phys_clamped:
  assumes "config_ok s" "total_leds s \<le> i"
  shows "phys s i = (unat (active_strips s) - 1) * 500 + (unat (leds_per_strip s) - 1)"
proof -
  let ?a = "unat (active_strips s)" and ?l = "unat (leds_per_strip s)" and ?n = "unat i"
  from assms have lay: "layout_ok s" by (simp add: config_ok_def)
  then have l: "1 \<le> ?l" by (simp add: layout_ok_nat)
  have "?a * ?l \<le> ?n"
    using assms by (simp add: word_le_nat_alt unat_total_leds)
  then have "?a \<le> ?n div ?l" using l
    by (simp add: less_eq_div_iff_mult_less_eq)
  then show ?thesis by (simp add: phys_eq [OF lay])
qed

lemma phys_less_total:
  assumes "layout_ok s"
  shows "phys s i < 4000"
proof -
  let ?a = "unat (active_strips s)" and ?l = "unat (leds_per_strip s)" and ?n = "unat i"
  from assms have a: "1 \<le> ?a" "?a \<le> 8" and l: "1 \<le> ?l" "?l \<le> 500"
    by (simp_all add: layout_ok_nat)
  have m: "?n mod ?l < ?l" using l by simp
  show ?thesis
  proof (cases "?a \<le> ?n div ?l")
    case True
    have "(?a - 1) * 500 \<le> 7 * 500" using a by (intro mult_le_mono) auto
    moreover have "?l - 1 < 500" using l by linarith
    ultimately have "(?a - 1) * 500 + (?l - 1) < 4000" by linarith
    with True show ?thesis by (simp add: phys_eq [OF assms])
  next
    case False
    then have "?n div ?l \<le> 7" using a by linarith
    then have "(?n div ?l) * 500 \<le> 7 * 500" by (intro mult_le_mono) auto
    moreover have "?n mod ?l < 500" using m l by linarith
    ultimately have "(?n div ?l) * 500 + ?n mod ?l < 4000" by linarith
    with False show ?thesis by (simp add: phys_eq [OF assms])
  qed
qed

lemma in_active_alt:
  "in_active s p \<longleftrightarrow> p div 500 < unat (active_strips s) \<and> p mod 500 < unat (leds_per_strip s)"
  by (simp add: in_active_def unat_MAX_LEDS_PER_STRIP)

lemma phys_in_active:
  assumes "config_ok s" "i < total_leds s"
  shows "in_active s (phys s i)"
    and "(phys s i div 500) * unat (leds_per_strip s) + phys s i mod 500 = unat i"
proof -
  let ?a = "unat (active_strips s)" and ?l = "unat (leds_per_strip s)" and ?n = "unat i"
  from assms have lay: "layout_ok s" by (simp add: config_ok_def)
  then have l: "?l \<le> 500" by (simp add: layout_ok_nat)
  note r = phys_in_range [OF assms]
  have lt: "?n mod ?l < 500" using r(3) l by linarith
  have dv: "phys s i div 500 = ?n div ?l" using lt by (simp add: r(1))
  have md: "phys s i mod 500 = ?n mod ?l" using lt by (simp add: r(1))
  show "in_active s (phys s i)" using r(2,3) by (simp add: in_active_alt dv md)
  show "(phys s i div 500) * ?l + phys s i mod 500 = ?n" by (simp add: dv md)
qed

section \<open>Iteration over the render buffer\<close>

lemma for_each_pointwise:
  assumes step: "\<And>i a. i \<in> set is \<Longrightarrow> length a = n \<Longrightarrow>
            \<exists>a'. body i a = Some a' \<and> length a' = n \<and>
                 (\<forall>p<n. a' ! p = (if T i p then V p else a ! p))"
    and len: "length a = n"
  shows "\<exists>a'. for_each body is a = Some a' \<and> length a' = n \<and>
              (\<forall>p<n. a' ! p = (if \<exists>i\<in>set is. T i p then V p else a ! p))"
  using step len
proof (induction "is" arbitrary: a)
  case Nil
  then show ?case by simp
next
  case (Cons i "is")
  from Cons.prems(1) [of i a] Cons.prems(2)
  obtain a1 where a1: "body i a = Some a1" "length a1 = n"
    "\<forall>p<n. a1 ! p = (if T i p then V p else a ! p)" by auto
  have "\<exists>a'. for_each body is a1 = Some a' \<and> length a' = n \<and>
              (\<forall>p<n. a' ! p = (if \<exists>i\<in>set is. T i p then V p else a1 ! p))"
    by (rule Cons.IH) (use Cons.prems(1) a1(2) in auto)
  then obtain a2 where a2: "for_each body is a1 = Some a2" "length a2 = n"
    "\<forall>p<n. a2 ! p = (if \<exists>i\<in>set is. T i p then V p else a1 ! p)" by blast
  have "\<forall>p<n. a2 ! p = (if \<exists>j\<in>set (i # is). T j p then V p else a ! p)"
    using a1(3) a2(3) by auto
  with a1(1) a2(1,2) show ?case by simp
qed

lemma write_led_pointwise:
  assumes "q < length a"
  shows "\<exists>a'. write_led q c a = Some a' \<and> length a' = length a \<and>
              (\<forall>p<length a. a' ! p = (if p = q then c else a ! p))"
  using assms by (simp add: write_led_def nth_list_update)

lemma clear_strip_pointwise:
  assumes "strip < 8" "length a = 4000"
  shows "\<exists>a'. clear_strip first strip a = Some a' \<and> length a' = 4000 \<and>
              (\<forall>p<4000. a' ! p = (if p div 500 = strip \<and> first \<le> p mod 500 then Black else a ! p))"
proof -
  have "\<exists>a'. for_each (\<lambda>offset. write_led (strip * 500 + offset) Black) [first ..< 500] a = Some a' \<and>
          length a' = 4000 \<and>
          (\<forall>p<4000. a' ! p = (if \<exists>off\<in>set [first ..< 500]. p = strip * 500 + off then Black else a ! p))"
  proof (rule for_each_pointwise [where T = "\<lambda>off p. p = strip * 500 + off" and V = "\<lambda>p. Black"])
    fix off and b :: "CRGB list"
    assume "off \<in> set [first ..< 500]" and b: "length b = 4000"
    then have "strip * 500 + off < length b" using assms(1) by simp
    from write_led_pointwise [OF this, of Black] b
    show "\<exists>a'. write_led (strip * 500 + off) Black b = Some a' \<and> length a' = 4000 \<and>
            (\<forall>p<4000. a' ! p = (if p = strip * 500 + off then Black else b ! p))"
      by simp
  qed (rule assms(2))
  moreover have "(\<exists>off\<in>set [first ..< 500]. p = strip * 500 + off) \<longleftrightarrow>
                 (p div 500 = strip \<and> first \<le> p mod 500)" for p
  proof
    assume "\<exists>off\<in>set [first ..< 500]. p = strip * 500 + off"
    then show "p div 500 = strip \<and> first \<le> p mod 500" by auto
  next
    assume h: "p div 500 = strip \<and> first \<le> p mod 500"
    have "p = p div 500 * 500 + p mod 500" by simp
    then have "p = strip * 500 + p mod 500" using h by simp
    moreover have "p mod 500 \<in> set [first ..< 500]" using h by simp
    ultimately show "\<exists>off\<in>set [first ..< 500]. p = strip * 500 + off" by blast
  qed
  ultimately show ?thesis by (simp add: clear_strip_def unat_MAX_LEDS_PER_STRIP)
qed

lemma clear_strips_pointwise:
  assumes "k \<le> 8" "length a = 4000"
  shows "\<exists>a'. for_each (clear_strip first) [0 ..< k] a = Some a' \<and> length a' = 4000 \<and>
              (\<forall>p<4000. a' ! p = (if p div 500 < k \<and> first \<le> p mod 500 then Black else a ! p))"
proof -
  have "\<exists>a'. for_each (clear_strip first) [0 ..< k] a = Some a' \<and> length a' = 4000 \<and>
          (\<forall>p<4000. a' ! p = (if \<exists>strip\<in>set [0 ..< k]. p div 500 = strip \<and> first \<le> p mod 500
                               then Black else a ! p))"
  proof (rule for_each_pointwise [where T = "\<lambda>strip p. p div 500 = strip \<and> first \<le> p mod 500"
                                    and V = "\<lambda>p. Black"])
    fix strip and b :: "CRGB list"
    assume "strip \<in> set [0 ..< k]" and b: "length b = 4000"
    then have "strip < 8" using assms(1) by simp
    from clear_strip_pointwise [OF this b]
    show "\<exists>a'. clear_strip first strip b = Some a' \<and> length a' = 4000 \<and>
            (\<forall>p<4000. a' ! p = (if p div 500 = strip \<and> first \<le> p mod 500 then Black else b ! p))" .
  qed (rule assms(2))
  then show ?thesis by simp
qed

lemma clear_all_pointwise:
  assumes "length a = 4000"
  shows "\<exists>a'. for_each (\<lambda>i. write_led i Black) [0 ..< 4000] a = Some a' \<and> length a' = 4000 \<and>
              (\<forall>p<4000. a' ! p = Black)"
proof -
  have "\<exists>a'. for_each (\<lambda>i. write_led i Black) [0 ..< 4000] a = Some a' \<and> length a' = 4000 \<and>
          (\<forall>p<4000. a' ! p = (if \<exists>i\<in>set [0 ..< 4000]. p = i then Black else a ! p))"
  proof (rule for_each_pointwise [where T = "\<lambda>i p. p = i" and V = "\<lambda>p. Black"])
    fix i and b :: "CRGB list"
    assume "i \<in> set [0 ..< 4000]" and b: "length b = 4000"
    then have "i < length b" by simp
    from write_led_pointwise [OF this, of Black] b
    show "\<exists>a'. write_led i Black b = Some a' \<and> length a' = 4000 \<and>
            (\<forall>p<4000. a' ! p = (if p = i then Black else b ! p))" by simp
  qed (rule assms)
  then show ?thesis by simp
qed

lemma set_logical_write:
  assumes "layout_ok s"
  shows "set_logical s i c a = write_led (phys s i) c a"
proof -
  from l2p_Some_phys [OF assms, of i] obtain p where
    "logical_to_physical s i = Some p" "unat p = phys s i" by blast
  then show ?thesis by (simp add: set_logical_def)
qed

lemma logical_index_of_nat:
  assumes "config_ok s" "k < unat (total_leds s)"
  shows "(of_nat k :: u16) < total_leds s" and "unat (of_nat k :: u16) = k"
proof -
  have "unat (total_leds s) < 2 ^ 16" using unsigned_less [of "total_leds s"] by simp
  then have "k < 65536" using assms(2) by simp
  then show u: "unat (of_nat k :: u16) = k" by (rule unat_u16_small)
  show "(of_nat k :: u16) < total_leds s" using assms(2) u by (simp add: word_less_nat_alt)
qed

lemma in_active_logical:
  assumes "config_ok s" "in_active s p"
  shows "(p div 500) * unat (leds_per_strip s) + p mod 500 < unat (total_leds s)"
    and "phys s (of_nat ((p div 500) * unat (leds_per_strip s) + p mod 500)) = p"
proof -
  let ?a = "unat (active_strips s)" and ?l = "unat (leds_per_strip s)"
  let ?k = "(p div 500) * ?l + p mod 500"
  from assms(2) have d: "p div 500 < ?a" and m: "p mod 500 < ?l" by (simp_all add: in_active_alt)
  have "Suc (p div 500) \<le> ?a" using d by simp
  then have "Suc (p div 500) * ?l \<le> ?a * ?l" by (rule mult_le_mono1)
  then have "?k < ?a * ?l" using m by simp
  then show lt: "?k < unat (total_leds s)" by (simp add: unat_total_leds [OF assms(1)])
  note i = logical_index_of_nat [OF assms(1) lt]
  have kd: "?k div ?l = p div 500" using m by simp
  have km: "?k mod ?l = p mod 500" using m by simp
  have "phys s (of_nat ?k) = (?k div ?l) * 500 + ?k mod ?l"
    using phys_in_range(1) [OF assms(1) i(1)] by (simp only: i(2))
  also have "\<dots> = p div 500 * 500 + p mod 500" by (simp only: kd km)
  also have "\<dots> = p" by simp
  finally show "phys s (of_nat ?k) = p" .
qed

lemma set_all_pixels_pointwise:
  assumes cfg: "config_ok s" and len: "length a = 4000"
  shows "\<exists>a'. for_each (\<lambda>logical. set_logical s (of_nat logical) (rgb_at data (1 + logical * 3)))
                 [0 ..< unat (total_leds s)] a = Some a' \<and> length a' = 4000 \<and>
              (\<forall>p<4000. a' ! p =
                 (if in_active s p
                  then rgb_at data (1 + ((p div 500) * unat (leds_per_strip s) + p mod 500) * 3)
                  else a ! p))"
proof -
  let ?l = "unat (leds_per_strip s)"
  let ?V = "\<lambda>p. rgb_at data (1 + ((p div 500) * ?l + p mod 500) * 3)"
  let ?T = "\<lambda>k p. p = phys s (of_nat k :: u16)"
  from cfg have lay: "layout_ok s" by (simp add: config_ok_def)
  have "\<exists>a'. for_each (\<lambda>logical. set_logical s (of_nat logical) (rgb_at data (1 + logical * 3)))
                 [0 ..< unat (total_leds s)] a = Some a' \<and> length a' = 4000 \<and>
          (\<forall>p<4000. a' ! p = (if \<exists>k\<in>set [0 ..< unat (total_leds s)]. ?T k p then ?V p else a ! p))"
  proof (rule for_each_pointwise [where T = ?T and V = ?V])
    fix k and b :: "CRGB list"
    assume "k \<in> set [0 ..< unat (total_leds s)]" and b: "length b = 4000"
    then have k: "k < unat (total_leds s)" by simp
    note i = logical_index_of_nat [OF cfg k]
    have q: "phys s (of_nat k) < length b" using phys_less_total [OF lay] b by simp
    have "(phys s (of_nat k) div 500) * ?l + phys s (of_nat k) mod 500 = k"
      using phys_in_active(2) [OF cfg i(1)] by (simp only: i(2))
    then have v: "?V (phys s (of_nat k)) = rgb_at data (1 + k * 3)" by simp
    from write_led_pointwise [OF q, of "rgb_at data (1 + k * 3)"] b v
    show "\<exists>a'. set_logical s (of_nat k) (rgb_at data (1 + k * 3)) b = Some a' \<and> length a' = 4000 \<and>
            (\<forall>p<4000. a' ! p = (if ?T k p then ?V p else b ! p))"
      by (auto simp: set_logical_write [OF lay])
  qed (rule len)
  moreover have "(\<exists>k\<in>set [0 ..< unat (total_leds s)]. ?T k p) \<longleftrightarrow> in_active s p" for p
  proof
    assume "\<exists>k\<in>set [0 ..< unat (total_leds s)]. ?T k p"
    then obtain k where k: "k < unat (total_leds s)" and p: "p = phys s (of_nat k)" by auto
    from phys_in_active(1) [OF cfg logical_index_of_nat(1) [OF cfg k]] p
    show "in_active s p" by simp
  next
    assume "in_active s p"
    from in_active_logical [OF cfg this]
    show "\<exists>k\<in>set [0 ..< unat (total_leds s)]. ?T k p"
      by (intro bexI [where x = "(p div 500) * ?l + p mod 500"]) simp_all
  qed
  ultimately show ?thesis by simp
qed

lemma set_range_loop_outside:
  assumes cfg: "config_ok s" and len: "length a = 4000"
  shows "\<exists>a'. set_range_loop s data start is a = Some a' \<and> length a' = 4000 \<and>
              (\<forall>p<4000. \<not> in_active s p \<longrightarrow> a' ! p = a ! p)"
  using len
proof (induction "is" arbitrary: a)
  case Nil
  then show ?case by simp
next
  case (Cons i "is")
  from cfg have lay: "layout_ok s" by (simp add: config_ok_def)
  let ?lg = "start + of_nat i :: u16"
  show ?case
  proof (cases "total_leds s \<le> ?lg")
    case True
    with Cons.prems show ?thesis by (simp add: Let_def)
  next
    case False
    then have lt: "?lg < total_leds s" by simp
    have q: "phys s ?lg < length a" using phys_less_total [OF lay] Cons.prems by simp
    from write_led_pointwise [OF q, of "rgb_at data (4 + i * 3)"] obtain a1 where
      a1: "write_led (phys s ?lg) (rgb_at data (4 + i * 3)) a = Some a1" "length a1 = length a"
          "\<forall>p<length a. a1 ! p = (if p = phys s ?lg then rgb_at data (4 + i * 3) else a ! p)"
      by blast
    have act: "in_active s (phys s ?lg)" by (rule phys_in_active(1) [OF cfg lt])
    from Cons.IH [of a1] a1(2) Cons.prems obtain a2 where
      a2: "set_range_loop s data start is a1 = Some a2" "length a2 = 4000"
          "\<forall>p<4000. \<not> in_active s p \<longrightarrow> a2 ! p = a1 ! p" by auto
    have "\<forall>p<4000. \<not> in_active s p \<longrightarrow> a2 ! p = a ! p"
      using a1(3) a2(3) act Cons.prems by auto
    with False a1(1) a2(1,2) show ?thesis
      by (simp add: Let_def set_logical_write [OF lay])
  qed
qed

section \<open>Handlers preserve the invariant\<close>

lemma config_ok_fields:
  "active_strips t = active_strips s \<Longrightarrow> leds_per_strip t = leds_per_strip s \<Longrightarrow>
   total_leds t = total_leds s \<Longrightarrow> config_ok t = config_ok s"
  by (simp add: config_ok_def layout_ok_def)

lemma in_active_fields:
  "active_strips t = active_strips s \<Longrightarrow> leds_per_strip t = leds_per_strip s \<Longrightarrow>
   in_active t = in_active s"
  by (simp add: in_active_def fun_eq_iff)

lemma engine_inv_fields:
  "leds t = leds s \<Longrightarrow> active_strips t = active_strips s \<Longrightarrow>
   leds_per_strip t = leds_per_strip s \<Longrightarrow> total_leds t = total_leds s \<Longrightarrow>
   engine_inv t = engine_inv s"
  by (simp add: engine_inv_def config_ok_def layout_ok_def in_active_def)

lemma engine_inv_alt:
  "engine_inv s \<longleftrightarrow> config_ok s \<and> length (leds s) = 4000 \<and>
     (\<forall>p<4000. \<not> in_active s p \<longrightarrow> leds s ! p = Black)"
  by (auto simp: engine_inv_def unat_MAX_TOTAL_LEDS)

lemma engine_inv_leds:
  assumes "engine_inv s" "length ls = 4000"
    and "\<forall>p<4000. \<not> in_active s p \<longrightarrow> ls ! p = Black"
  shows "engine_inv (s\<lparr>leds := ls\<rparr>)"
proof -
  have "config_ok (s\<lparr>leds := ls\<rparr>) = config_ok s" by (rule config_ok_fields) simp_all
  moreover have "in_active (s\<lparr>leds := ls\<rparr>) = in_active s" by (rule in_active_fields) simp_all
  ultimately show ?thesis using assms by (simp add: engine_inv_alt)
qed

lemma cmd_set_pixel_inv:
  assumes "engine_inv s"
  shows "\<exists>s'. cmd_set_pixel data s = Some s' \<and> engine_inv s'"
proof -
  from assms have cfg: "config_ok s" and len: "length (leds s) = 4000"
    and blk: "\<forall>p<4000. \<not> in_active s p \<longrightarrow> leds s ! p = Black"
    by (simp_all add: engine_inv_alt)
  from cfg have lay: "layout_ok s" by (simp add: config_ok_def)
  let ?px = "be16 (data ! 1) (data ! 2)"
  let ?c = "CRGB (data ! 3) (data ! 4) (data ! 5)"
  show ?thesis
  proof (cases "length data < 6 \<or> \<not> ?px < total_leds s")
    case True
    then have "cmd_set_pixel data s = Some s" by (auto simp: cmd_set_pixel_def Let_def)
    with assms show ?thesis by simp
  next
    case False
    then have lt: "?px < total_leds s" by simp
    have q: "phys s ?px < length (leds s)" using phys_less_total [OF lay] len by simp
    from write_led_pointwise [OF q, of ?c] obtain ls where
      ls: "write_led (phys s ?px) ?c (leds s) = Some ls" "length ls = length (leds s)"
          "\<forall>p<length (leds s). ls ! p = (if p = phys s ?px then ?c else leds s ! p)" by blast
    have act: "in_active s (phys s ?px)" by (rule phys_in_active(1) [OF cfg lt])
    have "\<forall>p<4000. \<not> in_active s p \<longrightarrow> ls ! p = Black"
      using ls(3) blk act len by auto
    then have "engine_inv (s\<lparr>leds := ls\<rparr>)"
      using assms ls(2) len by (intro engine_inv_leds) simp_all
    moreover have "cmd_set_pixel data s = Some (s\<lparr>leds := ls\<rparr>)"
      using False ls(1) by (simp add: cmd_set_pixel_def Let_def set_logical_write [OF lay])
    ultimately show ?thesis by simp
  qed
qed

lemma cmd_clear_inv:
  assumes "engine_inv s"
  shows "\<exists>s'. cmd_clear s = Some s' \<and> engine_inv s'"
proof -
  from assms have cfg: "config_ok s" and len: "length (leds s) = 4000"
    and blk: "\<forall>p<4000. \<not> in_active s p \<longrightarrow> leds s ! p = Black"
    by (simp_all add: engine_inv_alt)
  from cfg have a: "unat (active_strips s) \<le> 8" by (simp add: config_ok_def layout_ok_nat)
  from clear_strips_pointwise [OF a len, of 0] obtain ls where
    ls: "for_each (clear_strip 0) [0 ..< unat (active_strips s)] (leds s) = Some ls"
        "length ls = 4000"
        "\<forall>p<4000. ls ! p = (if p div 500 < unat (active_strips s) \<and> 0 \<le> p mod 500
                             then Black else leds s ! p)" by blast
  have "\<forall>p<4000. \<not> in_active s p \<longrightarrow> ls ! p = Black" using ls(3) blk by simp
  then have "engine_inv (s\<lparr>leds := ls\<rparr>)" using assms ls(2) by (intro engine_inv_leds)
  moreover have "cmd_clear s = Some (s\<lparr>leds := ls\<rparr>)" using ls(1) by (simp add: cmd_clear_def)
  ultimately show ?thesis by simp
qed

lemma cmd_set_range_inv:
  assumes "engine_inv s"
  shows "\<exists>s'. cmd_set_range data s = Some s' \<and> engine_inv s'"
proof -
  from assms have cfg: "config_ok s" and len: "length (leds s) = 4000"
    and blk: "\<forall>p<4000. \<not> in_active s p \<longrightarrow> leds s ! p = Black"
    by (simp_all add: engine_inv_alt)
  have loop: "\<exists>s'. map_option (\<lambda>ls. s\<lparr>leds := ls\<rparr>)
                 (set_range_loop s data start is (leds s)) = Some s' \<and> engine_inv s'" for start "is"
  proof -
    from set_range_loop_outside [OF cfg len, of data start "is"] obtain ls where
      ls: "set_range_loop s data start is (leds s) = Some ls" "length ls = 4000"
          "\<forall>p<4000. \<not> in_active s p \<longrightarrow> ls ! p = leds s ! p" by blast
    have "\<forall>p<4000. \<not> in_active s p \<longrightarrow> ls ! p = Black" using ls(3) blk by simp
    then have "engine_inv (s\<lparr>leds := ls\<rparr>)" using assms ls(2) by (intro engine_inv_leds)
    with ls(1) show ?thesis by simp
  qed
  let ?start = "be16 (data ! 1) (data ! 2)"
  show ?thesis
  proof (cases "length data < 4 \<or> total_leds s \<le> ?start \<or> length data < 4 + unat (data ! 3) * 3")
    case True
    then have "cmd_set_range data s = Some s" by (auto simp: cmd_set_range_def Let_def)
    with assms show ?thesis by simp
  next
    case False
    then have "\<exists>is. cmd_set_range data s =
        map_option (\<lambda>ls. s\<lparr>leds := ls\<rparr>) (set_range_loop s data ?start is (leds s))"
      by (simp add: cmd_set_range_def Let_def) blast
    then obtain "is" where "cmd_set_range data s =
        map_option (\<lambda>ls. s\<lparr>leds := ls\<rparr>) (set_range_loop s data ?start is (leds s))" ..
    with loop [of ?start "is"] show ?thesis by simp
  qed
qed

lemma cmd_set_all_reject:
  assumes "length data < 1 + unat (total_leds s) * 3"
  shows "cmd_set_all data s =
     Some (send_response RESP_ERROR ''SIZE_MISMATCH''
             (s\<lparr>set_all_commands_received := set_all_commands_received s + 1,
                 packet_errors := packet_errors s + 1\<rparr>))"
  using assms by (simp add: cmd_set_all_def Let_def)

lemma cmd_set_all_accept:
  assumes inv: "engine_inv s" and size: "1 + unat (total_leds s) * 3 \<le> length data"
  shows "\<exists>s'. cmd_set_all data s = Some s' \<and> engine_inv s' \<and>
           frames_rendered s' = frames_rendered s + 1 \<and>
           packet_errors s' = packet_errors s \<and>
           active_strips s' = active_strips s \<and> leds_per_strip s' = leds_per_strip s \<and>
           total_leds s' = total_leds s \<and>
           (\<forall>p<4000. leds s' ! p =
              (if in_active s p
               then rgb_at data (1 + ((p div 500) * unat (leds_per_strip s) + p mod 500) * 3)
               else Black))"
proof -
  let ?s1 = "s\<lparr>set_all_commands_received := set_all_commands_received s + 1\<rparr>"
  let ?V = "\<lambda>p. rgb_at data (1 + ((p div 500) * unat (leds_per_strip s) + p mod 500) * 3)"
  have inv1: "engine_inv ?s1" using inv by (simp add: engine_inv_fields [of ?s1 s])
  then have cfg: "config_ok ?s1" and len: "length (leds s) = 4000"
    and blk: "\<forall>p<4000. \<not> in_active ?s1 p \<longrightarrow> leds s ! p = Black"
    by (simp_all add: engine_inv_alt)
  have act: "in_active ?s1 = in_active s" by (rule in_active_fields) simp_all
  from cfg have a: "unat (active_strips s) \<le> 8" by (simp add: config_ok_def layout_ok_nat)
  from set_all_pixels_pointwise [OF cfg len, of data] obtain ls1 where
    ls1: "for_each (\<lambda>logical. set_logical ?s1 (of_nat logical) (rgb_at data (1 + logical * 3)))
            [0 ..< unat (total_leds s)] (leds s) = Some ls1" "length ls1 = 4000"
         "\<forall>p<4000. ls1 ! p = (if in_active s p then ?V p else leds s ! p)"
    by (auto simp: act)
  from clear_strips_pointwise [OF a ls1(2), of "unat (leds_per_strip s)"] obtain ls2 where
    ls2: "for_each (clear_strip (unat (leds_per_strip s))) [0 ..< unat (active_strips s)] ls1 = Some ls2"
         "length ls2 = 4000"
         "\<forall>p<4000. ls2 ! p = (if p div 500 < unat (active_strips s) \<and>
                                  unat (leds_per_strip s) \<le> p mod 500 then Black else ls1 ! p)"
    by blast
  have px: "\<forall>p<4000. ls2 ! p = (if in_active s p then ?V p else Black)"
    using ls1(3) ls2(3) blk by (auto simp: act in_active_alt)
  let ?s2 = "?s1\<lparr>leds := ls2, frames_rendered := frames_rendered s + 1\<rparr>"
  let ?s3 = "if frames_rendered s + 1 \<le> 3 then send_response RESP_OK ''FRAME_OK'' ?s2 else ?s2"
  have run: "cmd_set_all data s = Some ?s3"
    using size ls1(1) ls2(1) by (simp add: cmd_set_all_def Let_def not_less)
  have "engine_inv (s\<lparr>leds := ls2\<rparr>)"
    using inv ls2(2) px by (intro engine_inv_leds) simp_all
  then have "engine_inv ?s3"
    by (simp add: engine_inv_fields [of ?s3 "s\<lparr>leds := ls2\<rparr>"] send_response_def)
  moreover have "leds ?s3 = ls2" "frames_rendered ?s3 = frames_rendered s + 1"
    "packet_errors ?s3 = packet_errors s" "active_strips ?s3 = active_strips s"
    "leds_per_strip ?s3 = leds_per_strip s" "total_leds ?s3 = total_leds s"
    by (simp_all add: send_response_def)
  ultimately show ?thesis using run px by simp
qed

lemma cmd_config_reject:
  assumes "length data < 4 \<or> data ! 1 = 0 \<or> MAX_STRIPS < data ! 1 \<or>
           be16 (data ! 2) (data ! 3) = 0 \<or> MAX_LEDS_PER_STRIP < be16 (data ! 2) (data ! 3)"
  shows "\<exists>msg \<in> {''CONFIG_TOO_SHORT'', ''INVALID_STRIPS'', ''INVALID_LENGTH''}.
           cmd_config data s =
           Some (send_response RESP_ERROR msg
                   (s\<lparr>config_commands_received := config_commands_received s + 1\<rparr>))"
  using assms by (auto simp: cmd_config_def Let_def)

lemma cmd_config_valid:
  assumes "4 \<le> length data" "data ! 1 \<noteq> 0" "\<not> MAX_STRIPS < data ! 1"
    "be16 (data ! 2) (data ! 3) \<noteq> 0" "\<not> MAX_LEDS_PER_STRIP < be16 (data ! 2) (data ! 3)"
  shows "cmd_config data s =
     (let s0 = s\<lparr>config_commands_received := config_commands_received s + 1\<rparr>;
          s1 = s0\<lparr>active_strips := data ! 1, leds_per_strip := be16 (data ! 2) (data ! 3),
                  total_leds := ucast (data ! 1) * be16 (data ! 2) (data ! 3)\<rparr>;
          dbg = (\<lambda>t. if 5 \<le> length data then t\<lparr>debug_logging := (data ! 4 \<noteq> 0)\<rparr> else t)
      in if active_strips s \<noteq> data ! 1 \<or> leds_per_strip s \<noteq> be16 (data ! 2) (data ! 3)
         then map_option
                (\<lambda>ls. dbg (send_response RESP_OK ''CONFIG_CHANGED'' (s1\<lparr>leds := ls\<rparr>)))
                (for_each (\<lambda>i. write_led i Black) [0 ..< unat MAX_TOTAL_LEDS] (leds s))
         else Some (dbg (send_response RESP_OK ''CONFIG_OK'' s1)))"
  using assms unfolding cmd_config_def Let_def by simp

lemma cmd_config_unchanged:
  assumes "4 \<le> length data" "data ! 1 \<noteq> 0" "\<not> MAX_STRIPS < data ! 1"
    "be16 (data ! 2) (data ! 3) \<noteq> 0" "\<not> MAX_LEDS_PER_STRIP < be16 (data ! 2) (data ! 3)"
    and same: "active_strips s = data ! 1" "leds_per_strip s = be16 (data ! 2) (data ! 3)"
  shows "\<exists>s'. cmd_config data s = Some s' \<and> leds s' = leds s \<and>
           active_strips s' = data ! 1 \<and> leds_per_strip s' = be16 (data ! 2) (data ! 3) \<and>
           total_leds s' = ucast (data ! 1) * be16 (data ! 2) (data ! 3) \<and>
           tx s' = tx s @ response_frame RESP_OK ''CONFIG_OK''"
  unfolding cmd_config_valid [OF assms(1-5)] Let_def
  using same by (simp add: send_response_def)

lemma cmd_config_changed:
  assumes "4 \<le> length data" "data ! 1 \<noteq> 0" "\<not> MAX_STRIPS < data ! 1"
    "be16 (data ! 2) (data ! 3) \<noteq> 0" "\<not> MAX_LEDS_PER_STRIP < be16 (data ! 2) (data ! 3)"
    and diff: "active_strips s \<noteq> data ! 1 \<or> leds_per_strip s \<noteq> be16 (data ! 2) (data ! 3)"
    and len: "length (leds s) = 4000"
  shows "\<exists>s'. cmd_config data s = Some s' \<and> length (leds s') = 4000 \<and>
           (\<forall>p<4000. leds s' ! p = Black) \<and>
           active_strips s' = data ! 1 \<and> leds_per_strip s' = be16 (data ! 2) (data ! 3) \<and>
           total_leds s' = ucast (data ! 1) * be16 (data ! 2) (data ! 3) \<and>
           tx s' = tx s @ response_frame RESP_OK ''CONFIG_CHANGED''"
proof -
  from clear_all_pointwise [OF len] obtain ls where
    ls: "for_each (\<lambda>i. write_led i Black) [0 ..< 4000] (leds s) = Some ls" "length ls = 4000"
        "\<forall>p<4000. ls ! p = Black" by blast
  show ?thesis
    unfolding cmd_config_valid [OF assms(1-5)] Let_def unat_MAX_TOTAL_LEDS
    using diff ls by (simp add: send_response_def)
qed

lemma engine_inv_transfer:
  assumes "engine_inv s" "leds t = leds s" "active_strips t = active_strips s"
    "leds_per_strip t = leds_per_strip s" "total_leds t = total_leds s"
  shows "engine_inv t"
  using assms(1) engine_inv_fields [OF assms(2-5)] by simp

lemma cmd_config_inv:
  assumes "engine_inv s"
  shows "\<exists>s'. cmd_config data s = Some s' \<and> engine_inv s'"
proof -
  let ?ns = "data ! 1" and ?nl = "be16 (data ! 2) (data ! 3)"
  from assms have len: "length (leds s) = 4000" by (simp add: engine_inv_alt)
  let ?bad = "length data < 4 \<or> ?ns = 0 \<or> MAX_STRIPS < ?ns \<or> ?nl = 0 \<or> MAX_LEDS_PER_STRIP < ?nl"
  show ?thesis
  proof (cases ?bad)
    case bad: True
    from cmd_config_reject [OF bad, of s] obtain msg where
      r: "cmd_config data s = Some (send_response RESP_ERROR msg
            (s\<lparr>config_commands_received := config_commands_received s + 1\<rparr>))" by blast
    have "engine_inv (send_response RESP_ERROR msg
            (s\<lparr>config_commands_received := config_commands_received s + 1\<rparr>))"
      by (rule engine_inv_transfer [OF assms]) (simp_all add: send_response_def)
    with r show ?thesis by simp
  next
    case False
    then have ok: "4 \<le> length data" "?ns \<noteq> 0" "\<not> MAX_STRIPS < ?ns" "?nl \<noteq> 0"
      "\<not> MAX_LEDS_PER_STRIP < ?nl" by simp_all
    show ?thesis
    proof (cases "active_strips s = ?ns \<and> leds_per_strip s = ?nl")
    case True
    then have same: "active_strips s = ?ns" "leds_per_strip s = ?nl" by simp_all
    from cmd_config_unchanged [OF ok same] obtain s' where
      s': "cmd_config data s = Some s'" "leds s' = leds s" "active_strips s' = ?ns"
          "leds_per_strip s' = ?nl" "total_leds s' = ucast ?ns * ?nl" by blast
    have "total_leds s = ucast (active_strips s) * leds_per_strip s"
      using assms by (simp add: engine_inv_def config_ok_def)
    then have "engine_inv s'"
      using s'(2-5) same by (intro engine_inv_transfer [OF assms]) simp_all
    with s'(1) show ?thesis by simp
  next
    case False
    then have new: "active_strips s \<noteq> ?ns \<or> leds_per_strip s \<noteq> ?nl" by simp
    from cmd_config_changed [OF ok new len] obtain s' where
      s': "cmd_config data s = Some s'" "length (leds s') = 4000" "\<forall>p<4000. leds s' ! p = Black"
          "active_strips s' = ?ns" "leds_per_strip s' = ?nl" "total_leds s' = ucast ?ns * ?nl" by blast
    have "layout_ok s'"
      using ok(2-5) s'(4,5) by (simp add: layout_ok_def not_less word_le_nat_alt unat_gt_0 Suc_le_eq)
    then have "engine_inv s'"
      using s'(2-6) by (simp add: engine_inv_alt config_ok_def)
    with s'(1) show ?thesis by simp
  qed
  qed
qed

lemma received_fields:
  "engine_inv (s\<lparr>total_bytes_received := b, packets_received := n\<rparr>) = engine_inv s"
  by (rule engine_inv_fields) simp_all

lemma process_command_inv:
  assumes "engine_inv s"
  shows "\<exists>s'. process_command data s = Some s' \<and> engine_inv s'"
proof (cases "length data = 0")
  case True
  with assms show ?thesis by (simp add: process_command_def)
next
  case False
  let ?s = "s\<lparr>total_bytes_received := total_bytes_received s + of_nat (length data),
               packets_received := packets_received s + 1\<rparr>"
  have inv: "engine_inv ?s" using assms by (simp only: received_fields)
  have other: "engine_inv t"
    if "leds t = leds ?s" "active_strips t = active_strips ?s"
       "leds_per_strip t = leds_per_strip ?s" "total_leds t = total_leds ?s" for t
    using inv engine_inv_fields [OF that] by simp
  have "engine_inv (cmd_echo data ?s)" by (rule other) (simp_all add: cmd_echo_def Let_def)
  moreover have "engine_inv (cmd_ping ?s)" by (rule other) (simp_all add: cmd_ping_def send_response_def)
  moreover have "engine_inv (cmd_set_brightness data ?s)"
    by (rule other) (simp_all add: cmd_set_brightness_def)
  moreover have "engine_inv (?s\<lparr>packet_errors := packet_errors ?s + 1\<rparr>)"
    by (rule other) simp_all
  moreover note cmd_set_pixel_inv [OF inv, of data] cmd_clear_inv [OF inv]
    cmd_set_range_inv [OF inv, of data] cmd_config_inv [OF inv, of data]
  moreover have "\<exists>s'. cmd_set_all data ?s = Some s' \<and> engine_inv s'"
  proof (cases "length data < 1 + unat (total_leds ?s) * 3")
    case True
    have "engine_inv (send_response RESP_ERROR ''SIZE_MISMATCH''
             (?s\<lparr>set_all_commands_received := set_all_commands_received ?s + 1,
                   packet_errors := packet_errors ?s + 1\<rparr>))"
      by (rule other) (simp_all add: send_response_def)
    then show ?thesis by (simp only: cmd_set_all_reject [OF True]) simp
  next
    case False
    then have "1 + unat (total_leds ?s) * 3 \<le> length data" by simp
    from cmd_set_all_accept [OF inv this] show ?thesis by blast
  qed
  ultimately show ?thesis
    using False inv unfolding process_command_def Let_def by (simp only: if_False) auto
qed

lemma initial_engine_inv: "engine_inv initial_engine"
  by (simp add: engine_inv_alt config_ok_def layout_ok_def initial_engine_def
      unat_MAX_TOTAL_LEDS MAX_STRIPS_def MAX_LEDS_PER_STRIP_def DEFAULT_STRIPS_def
      DEFAULT_LEDS_PER_STRIP_def)

lemma reachable_inv: "reachable s \<Longrightarrow> engine_inv s"
proof (induction rule: reachable.induct)
  case boot
  show ?case by (rule initial_engine_inv)
next
  case (command s data s')
  from process_command_inv [OF command.IH, of data] command.hyps(2) show ?case by simp
next
  case (framing_error s)
  from framing_error.IH show ?case by (rule engine_inv_transfer) simp_all
qed

section \<open>Dispatch on the opcode\<close>

lemma process_command_nonempty:
  assumes "data \<noteq> []"
  shows "process_command data s =
     (let t = s\<lparr>total_bytes_received := total_bytes_received s + of_nat (length data),
                 packets_received := packets_received s + 1\<rparr>;
          cmd = data ! 0
      in if cmd = CMD_ECHO then Some (cmd_echo data t)
         else if cmd = CMD_PING then Some (cmd_ping t)
         else if cmd = CMD_SET_PIXEL then cmd_set_pixel data t
         else if cmd = CMD_SET_BRIGHTNESS then Some (cmd_set_brightness data t)
         else if cmd = CMD_SHOW then Some t
         else if cmd = CMD_CLEAR then cmd_clear t
         else if cmd = CMD_SET_RANGE then cmd_set_range data t
         else if cmd = CMD_SET_ALL then cmd_set_all data t
         else if cmd = CMD_CONFIG then cmd_config data t
         else Some (t\<lparr>packet_errors := packet_errors t + 1\<rparr>))"
  using assms by (simp add: process_command_def)

lemma process_command_set_pixel:
  assumes "data \<noteq> []" "data ! 0 = CMD_SET_PIXEL"
  shows "process_command data s =
     cmd_set_pixel data (s\<lparr>total_bytes_received := total_bytes_received s + of_nat (length data),
                           packets_received := packets_received s + 1\<rparr>)"
  using assms(2) unfolding process_command_nonempty [OF assms(1)] Let_def
  by (simp add: CMD_ECHO_def CMD_PING_def CMD_SET_PIXEL_def)

lemma process_command_set_all:
  assumes "data \<noteq> []" "data ! 0 = CMD_SET_ALL"
  shows "process_command data s =
     cmd_set_all data (s\<lparr>total_bytes_received := total_bytes_received s + of_nat (length data),
                         packets_received := packets_received s + 1\<rparr>)"
  using assms(2) unfolding process_command_nonempty [OF assms(1)] Let_def
  by (simp add: CMD_ECHO_def CMD_PING_def CMD_SET_PIXEL_def CMD_SET_BRIGHTNESS_def CMD_SHOW_def
      CMD_CLEAR_def CMD_SET_RANGE_def CMD_SET_ALL_def)

lemma process_command_config:
  assumes "data \<noteq> []" "data ! 0 = CMD_CONFIG"
  shows "process_command data s =
     cmd_config data (s\<lparr>total_bytes_received := total_bytes_received s + of_nat (length data),
                        packets_received := packets_received s + 1\<rparr>)"
  using assms(2) unfolding process_command_nonempty [OF assms(1)] Let_def
  by (simp add: CMD_ECHO_def CMD_PING_def CMD_SET_PIXEL_def CMD_SET_BRIGHTNESS_def CMD_SHOW_def
      CMD_CLEAR_def CMD_SET_RANGE_def CMD_SET_ALL_def CMD_CONFIG_def)

section \<open>Layout mapping: clamping, range and injectivity\<close>

text \<open>
  Claim C3. For every legal configuration and every logical index \<open>i\<close> with
  \<open>i \<ge> total_leds\<close>, \<open>logical_to_physical\<close> returns
  \<open>(active_strips - 1) * MAX_LEDS_PER_STRIP + (leds_per_strip - 1)\<close>, the last physical
  slot of the last active strip; the 16-bit result is that number without wrap-around.
\<close>
theorem logical_to_physical_clamps:
  assumes "config_ok s" and "total_leds s \<le> i"
  shows "logical_to_physical s i =
           Some ((ucast (active_strips s) - 1) * MAX_LEDS_PER_STRIP + (leds_per_strip s - 1)) \<and>
         unat ((ucast (active_strips s) - 1) * MAX_LEDS_PER_STRIP + (leds_per_strip s - 1) :: u16) =
           (unat (active_strips s) - 1) * unat MAX_LEDS_PER_STRIP + (unat (leds_per_strip s) - 1)"
proof -
  let ?a = "unat (active_strips s)" and ?l = "unat (leds_per_strip s)"
  from assms(1) have lay: "layout_ok s" by (simp add: config_ok_def)
  then have l: "1 \<le> ?l" by (simp add: layout_ok_nat)
  then have nz: "leds_per_strip s \<noteq> 0" by (auto simp: unat_0_iff [symmetric])
  have "?a * ?l \<le> unat i"
    using assms by (simp add: word_le_nat_alt unat_total_leds)
  then have "?a \<le> unat i div ?l" using l by (simp add: less_eq_div_iff_mult_less_eq)
  then have cmp: "ucast (active_strips s) \<le> i div leds_per_strip s"
    by (simp add: word_le_nat_alt unat_ucast_u8_u16 unat_div)
  have eq: "logical_to_physical s i =
      Some ((ucast (active_strips s) - 1) * MAX_LEDS_PER_STRIP + (leds_per_strip s - 1))"
    using nz cmp by (simp add: logical_to_physical_def Let_def)
  from l2p_Some_phys [OF lay, of i] eq phys_clamped [OF assms]
  show ?thesis by (simp add: unat_MAX_LEDS_PER_STRIP)
qed

theorem logical_to_physical_clamps_witness:
  "config_ok initial_engine \<and> total_leds initial_engine \<le> 2000 \<and>
   logical_to_physical initial_engine 2000 = Some 3639"
proof -
  have c: "config_ok initial_engine"
    using initial_engine_inv by (simp add: engine_inv_def)
  have t: "total_leds initial_engine \<le> 2000"
    by (simp add: initial_engine_def DEFAULT_STRIPS_def DEFAULT_LEDS_PER_STRIP_def)
  from logical_to_physical_clamps [OF c t] c t show ?thesis
    by (simp add: initial_engine_def DEFAULT_STRIPS_def DEFAULT_LEDS_PER_STRIP_def
        MAX_LEDS_PER_STRIP_def)
qed

text \<open>
  Claim C5. For every legal configuration and all logical indices \<open>i\<close>, \<open>j\<close> below
  \<open>total_leds\<close>: the physical offset of \<open>i\<close> has its strip component below
  \<open>active_strips\<close> and its offset component below \<open>leds_per_strip\<close>, and distinct
  logical indices get distinct physical offsets.
\<close>
theorem logical_to_physical_active_injective:
  assumes "config_ok s" and "i < total_leds s" and "j < total_leds s"
  shows "\<exists>p q. logical_to_physical s i = Some p \<and> logical_to_physical s j = Some q \<and>
           unat p div unat MAX_LEDS_PER_STRIP < unat (active_strips s) \<and>
           unat p mod unat MAX_LEDS_PER_STRIP < unat (leds_per_strip s) \<and>
           (i \<noteq> j \<longrightarrow> p \<noteq> q)"
proof -
  from assms(1) have lay: "layout_ok s" by (simp add: config_ok_def)
  from l2p_Some_phys [OF lay, of i] obtain p where
    p: "logical_to_physical s i = Some p" "unat p = phys s i" by blast
  from l2p_Some_phys [OF lay, of j] obtain q where
    q: "logical_to_physical s j = Some q" "unat q = phys s j" by blast
  have act: "in_active s (unat p)" using phys_in_active(1) [OF assms(1,2)] by (simp add: p(2))
  have "i = j" if "p = q"
  proof -
    from that have "phys s i = phys s j" using p(2) q(2) by simp
    then have "unat i = unat j"
      using phys_in_active(2) [OF assms(1,2)] phys_in_active(2) [OF assms(1,3)] by simp
    then show ?thesis by (simp add: word_unat_eq_iff)
  qed
  with p(1) q(1) act show ?thesis by (auto simp: in_active_def)
qed

theorem logical_to_physical_active_injective_witness:
  "config_ok initial_engine \<and> 150 < total_leds initial_engine \<and> 10 < total_leds initial_engine \<and>
   logical_to_physical initial_engine 150 = Some 510 \<and>
   logical_to_physical initial_engine 10 = Some 10"
proof -
  have c: "config_ok initial_engine"
    using initial_engine_inv by (simp add: engine_inv_def)
  have t: "150 < total_leds initial_engine" "10 < total_leds initial_engine"
    by (simp_all add: initial_engine_def DEFAULT_STRIPS_def DEFAULT_LEDS_PER_STRIP_def)
  from logical_to_physical_active_injective [OF c t] c t show ?thesis
    by (simp add: logical_to_physical_def initial_engine_def DEFAULT_STRIPS_def
        DEFAULT_LEDS_PER_STRIP_def MAX_LEDS_PER_STRIP_def Let_def word_le_nat_alt)
qed

lemma reachable_total:
  assumes "reachable s"
  shows "\<exists>s'. process_command data s = Some s' \<and> reachable s'"
proof -
  from process_command_inv [OF reachable_inv [OF assms], of data] obtain s' where
    "process_command data s = Some s'" by blast
  with assms show ?thesis by (auto intro: reachable.command)
qed

section \<open>Buffer bounds\<close>

text \<open>
  Claim C10. Under the layout bounds (\<open>1 \<le> active_strips \<le> MAX_STRIPS\<close> and
  \<open>1 \<le> leds_per_strip \<le> MAX_LEDS_PER_STRIP\<close>) the physical offset of every logical
  index, in range or not, is strictly below \<open>MAX_TOTAL_LEDS\<close>; and in every reachable
  state every command runs to completion, that is, no handler stores outside \<open>leds\<close>
  (an out-of-bounds store is the result \<open>None\<close>).
\<close>
theorem logical_to_physical_within_buffer:
  "(layout_ok s \<longrightarrow> (\<exists>p. logical_to_physical s i = Some p \<and> p < MAX_TOTAL_LEDS)) \<and>
   (reachable s \<longrightarrow> (\<exists>s'. process_command data s = Some s'))"
proof (intro conjI impI)
  assume lay: "layout_ok s"
  from l2p_Some_phys [OF lay, of i] obtain p where
    p: "logical_to_physical s i = Some p" "unat p = phys s i" by blast
  have "unat p < unat MAX_TOTAL_LEDS"
    using phys_less_total [OF lay, of i] by (simp add: p(2) unat_MAX_TOTAL_LEDS)
  then have "p < MAX_TOTAL_LEDS" by (simp add: word_less_nat_alt)
  with p(1) show "\<exists>p. logical_to_physical s i = Some p \<and> p < MAX_TOTAL_LEDS" by simp
next
  assume "reachable s"
  from reachable_total [OF this, of data]
  show "\<exists>s'. process_command data s = Some s'" by blast
qed

theorem logical_to_physical_within_buffer_witness:
  "layout_ok initial_engine \<and> reachable initial_engine \<and>
   logical_to_physical initial_engine 65535 = Some 3639 \<and> (3639 :: u16) < MAX_TOTAL_LEDS \<and>
   (\<exists>s'. process_command [CMD_CLEAR] initial_engine = Some s')"
proof -
  have l: "layout_ok initial_engine"
    using initial_engine_inv by (simp add: engine_inv_def config_ok_def)
  have r: "reachable initial_engine" by (rule reachable.boot)
  have v: "logical_to_physical initial_engine 65535 = Some 3639"
    by (simp add: logical_to_physical_def initial_engine_def DEFAULT_STRIPS_def
        DEFAULT_LEDS_PER_STRIP_def MAX_LEDS_PER_STRIP_def Let_def word_le_nat_alt unat_div)
  from logical_to_physical_within_buffer [of initial_engine 65535 "[CMD_CLEAR]"] l r v
  show ?thesis by simp
qed

section \<open>SET_ALL\<close>

text \<open>
  Claim C1, as the code has it. For every engine state and every non-empty command
  buffer with opcode \<open>CMD_SET_ALL\<close> whose length is less than \<open>1 + total_leds * 3\<close>, the
  command is rejected: a \<open>SIZE_MISMATCH\<close> error response is appended to the output, the
  packet-error counter goes up by one, the render buffer is unchanged and
  \<open>frames_rendered\<close> is unchanged.
\<close>
theorem set_all_short_rejected:
  assumes "data \<noteq> []" and "data ! 0 = CMD_SET_ALL"
    and "length data < 1 + unat (total_leds s) * 3"
  shows "\<exists>s'. process_command data s = Some s' \<and>
           tx s' = tx s @ response_frame RESP_ERROR ''SIZE_MISMATCH'' \<and>
           packet_errors s' = packet_errors s + 1 \<and>
           leds s' = leds s \<and>
           frames_rendered s' = frames_rendered s"
proof -
  let ?t = "s\<lparr>total_bytes_received := total_bytes_received s + of_nat (length data),
               packets_received := packets_received s + 1\<rparr>"
  have "length data < 1 + unat (total_leds ?t) * 3" using assms(3) by simp
  from cmd_set_all_reject [OF this] show ?thesis
    by (simp add: process_command_set_all [OF assms(1,2)] send_response_def)
qed

theorem set_all_short_rejected_witness:
  "[CMD_SET_ALL, 1, 2, 3] \<noteq> [] \<and> [CMD_SET_ALL, 1, 2, 3] ! 0 = CMD_SET_ALL \<and>
   length [CMD_SET_ALL, 1, 2, 3] < 1 + unat (total_leds initial_engine) * 3 \<and>
   (\<exists>s'. process_command [CMD_SET_ALL, 1, 2, 3] initial_engine = Some s' \<and>
         tx s' = response_frame RESP_ERROR ''SIZE_MISMATCH'' \<and>
         packet_errors s' = 1 \<and> leds s' = leds initial_engine \<and> frames_rendered s' = 0)"
proof -
  have l: "length [CMD_SET_ALL, 1, 2, 3] < 1 + unat (total_leds initial_engine) * 3"
    by (simp add: initial_engine_def DEFAULT_STRIPS_def DEFAULT_LEDS_PER_STRIP_def)
  from set_all_short_rejected [OF _ _ l] l show ?thesis
    by (simp add: initial_engine_def)
qed

text \<open>
  A buffer one byte longer than \<open>1 + total_leds * 3\<close> is not rejected: in the initial
  state (1120 LEDs, 3361 bytes expected) a 3362-byte \<open>CMD_SET_ALL\<close> renders a frame,
  counts no error and changes pixel 0.
\<close>

theorem set_all_longer_counterexample:
  "reachable initial_engine \<and>
   (CMD_SET_ALL # replicate 3361 255) ! 0 = CMD_SET_ALL \<and>
   length (CMD_SET_ALL # replicate 3361 255) \<noteq> 1 + unat (total_leds initial_engine) * 3 \<and>
   process_command (CMD_SET_ALL # replicate 3361 255) initial_engine \<noteq> None \<and>
   frames_rendered (the (process_command (CMD_SET_ALL # replicate 3361 255) initial_engine)) =
     frames_rendered initial_engine + 1 \<and>
   packet_errors (the (process_command (CMD_SET_ALL # replicate 3361 255) initial_engine)) =
     packet_errors initial_engine \<and>
   leds initial_engine ! 0 = Black \<and>
   leds (the (process_command (CMD_SET_ALL # replicate 3361 255) initial_engine)) ! 0 =
     CRGB 255 255 255"
proof -
  let ?d = "CMD_SET_ALL # replicate 3361 (255 :: u8)"
  let ?t = "initial_engine\<lparr>total_bytes_received :=
                total_bytes_received initial_engine + of_nat (length ?d),
              packets_received := packets_received initial_engine + 1\<rparr>"
  have tl: "unat (total_leds initial_engine) = 1120"
    by (simp add: initial_engine_def DEFAULT_STRIPS_def DEFAULT_LEDS_PER_STRIP_def)
  have inv: "engine_inv ?t"
    by (rule engine_inv_transfer [OF initial_engine_inv]) simp_all
  have size: "1 + unat (total_leds ?t) * 3 \<le> length ?d" by (simp add: tl)
  from cmd_set_all_accept [OF inv size] obtain s' where
    s': "cmd_set_all ?d ?t = Some s'" "frames_rendered s' = frames_rendered ?t + 1"
        "packet_errors s' = packet_errors ?t"
        "\<forall>p<4000. leds s' ! p =
              (if in_active ?t p
               then rgb_at ?d (1 + ((p div 500) * unat (leds_per_strip ?t) + p mod 500) * 3)
               else Black)" by blast
  have run: "process_command ?d initial_engine = Some s'"
    using s'(1) by (simp add: process_command_set_all)
  have act: "in_active ?t 0"
    by (simp add: in_active_def initial_engine_def DEFAULT_STRIPS_def DEFAULT_LEDS_PER_STRIP_def)
  have "leds s' ! 0 = rgb_at ?d 1" using s'(4) act by simp
  then have px: "leds s' ! 0 = CRGB 255 255 255" by (simp add: rgb_at_def)
  have blk: "leds initial_engine ! 0 = Black"
    by (simp add: initial_engine_def unat_MAX_TOTAL_LEDS)
  show ?thesis
    using run s'(2,3) px blk by (simp add: reachable.boot tl)
qed

text \<open>
  Claim C2. For every reachable state and every \<open>CMD_SET_ALL\<close> buffer of length exactly
  \<open>1 + total_leds * 3\<close>, after processing every logical pixel \<open>i < total_leds\<close> holds
  the triple at payload bytes \<open>1 + 3i .. 3 + 3i\<close> at its physical offset, every physical
  slot outside the active region is black, and \<open>frames_rendered\<close> has gone up by one.
\<close>
theorem set_all_exact_writes_frame:
  assumes "reachable s" and "data \<noteq> []" and "data ! 0 = CMD_SET_ALL"
    and "length data = 1 + unat (total_leds s) * 3"
  shows "\<exists>s'. process_command data s = Some s' \<and>
           (\<forall>i < unat (total_leds s).
              \<exists>p. logical_to_physical s (of_nat i) = Some p \<and>
                  leds s' ! unat p = CRGB (data ! (1 + 3 * i)) (data ! (2 + 3 * i)) (data ! (3 + 3 * i))) \<and>
           (\<forall>p < unat MAX_TOTAL_LEDS. \<not> in_active s p \<longrightarrow> leds s' ! p = Black) \<and>
           frames_rendered s' = frames_rendered s + 1"
proof -
  let ?t = "s\<lparr>total_bytes_received := total_bytes_received s + of_nat (length data),
               packets_received := packets_received s + 1\<rparr>"
  let ?l = "unat (leds_per_strip s)"
  have inv: "engine_inv ?t"
    by (rule engine_inv_transfer [OF reachable_inv [OF assms(1)]]) simp_all
  from reachable_inv [OF assms(1)] have cfg: "config_ok s" by (simp add: engine_inv_def)
  then have lay: "layout_ok s" by (simp add: config_ok_def)
  have act: "in_active ?t = in_active s" by (rule in_active_fields) simp_all
  have size: "1 + unat (total_leds ?t) * 3 \<le> length data" using assms(4) by simp
  from cmd_set_all_accept [OF inv size] obtain s' where
    s': "cmd_set_all data ?t = Some s'" "frames_rendered s' = frames_rendered s + 1"
        "\<forall>p<4000. leds s' ! p =
              (if in_active s p then rgb_at data (1 + ((p div 500) * ?l + p mod 500) * 3)
               else Black)" by (auto simp: act)
  have px: "\<exists>p. logical_to_physical s (of_nat i) = Some p \<and>
              leds s' ! unat p = CRGB (data ! (1 + 3 * i)) (data ! (2 + 3 * i)) (data ! (3 + 3 * i))"
    if i: "i < unat (total_leds s)" for i
  proof -
    note k = logical_index_of_nat [OF cfg i]
    from l2p_Some_phys [OF lay, of "of_nat i"] obtain p where
      p: "logical_to_physical s (of_nat i) = Some p" "unat p = phys s (of_nat i)" by blast
    have a: "in_active s (unat p)" using phys_in_active(1) [OF cfg k(1)] by (simp add: p(2))
    have b: "(unat p div 500) * ?l + unat p mod 500 = i"
      using phys_in_active(2) [OF cfg k(1)] by (simp add: p(2) k(2))
    have "unat p < 4000" using phys_less_total [OF lay, of "of_nat i"] by (simp add: p(2))
    with s'(3) a have "leds s' ! unat p = rgb_at data (1 + ((unat p div 500) * ?l + unat p mod 500) * 3)"
      by simp
    also have "\<dots> = rgb_at data (1 + i * 3)" by (simp only: b)
    also have "\<dots> = CRGB (data ! (1 + 3 * i)) (data ! (2 + 3 * i)) (data ! (3 + 3 * i))"
    proof -
      have "1 + i * 3 = 1 + 3 * i" "1 + i * 3 + 1 = 2 + 3 * i" "1 + i * 3 + 2 = 3 + 3 * i"
        by simp_all
      then show ?thesis by (simp only: rgb_at_def)
    qed
    finally show ?thesis using p(1) by simp
  qed
  have "process_command data s = Some s'"
    using s'(1) by (simp add: process_command_set_all [OF assms(2,3)])
  with px s'(2,3) show ?thesis by (simp add: unat_MAX_TOTAL_LEDS)
qed

theorem set_all_exact_writes_frame_witness:
  "reachable initial_engine \<and> CMD_SET_ALL # replicate 3360 255 \<noteq> [] \<and>
   (CMD_SET_ALL # replicate 3360 255) ! 0 = CMD_SET_ALL \<and>
   length (CMD_SET_ALL # replicate 3360 255) = 1 + unat (total_leds initial_engine) * 3 \<and>
   (\<exists>s'. process_command (CMD_SET_ALL # replicate 3360 255) initial_engine = Some s' \<and>
         frames_rendered s' = frames_rendered initial_engine + 1)"
proof -
  let ?d = "CMD_SET_ALL # replicate 3360 (255 :: u8)"
  have l: "length ?d = 1 + unat (total_leds initial_engine) * 3"
    by (simp add: initial_engine_def DEFAULT_STRIPS_def DEFAULT_LEDS_PER_STRIP_def)
  have n: "?d \<noteq> []" and c: "?d ! 0 = CMD_SET_ALL" by simp_all
  from set_all_exact_writes_frame [OF reachable.boot n c l] obtain s' where
    "process_command ?d initial_engine = Some s'"
    "frames_rendered s' = frames_rendered initial_engine + 1" by blast
  with l n c reachable.boot show ?thesis by blast
qed

section \<open>SET_PIXEL\<close>

lemma cmd_set_pixel_beyond:
  assumes "6 \<le> length data" and "total_leds s \<le> be16 (data ! 1) (data ! 2)"
  shows "cmd_set_pixel data s = Some s"
proof -
  from assms(2) have "\<not> be16 (data ! 1) (data ! 2) < total_leds s" by simp
  with assms(1) show ?thesis by (simp add: cmd_set_pixel_def Let_def)
qed

text \<open>
  Claim C4, as the code has it. A \<open>CMD_SET_PIXEL\<close> command (of at least six bytes) whose
  logical index is at or beyond \<open>total_leds\<close> is ignored: only the byte and packet
  counters advance, and no pixel of the render buffer is written.
\<close>
theorem set_pixel_out_of_range_ignored:
  assumes "data ! 0 = CMD_SET_PIXEL" and "6 \<le> length data"
    and "total_leds s \<le> be16 (data ! 1) (data ! 2)"
  shows "process_command data s =
           Some (s\<lparr>total_bytes_received := total_bytes_received s + of_nat (length data),
                   packets_received := packets_received s + 1\<rparr>) \<and>
         leds (the (process_command data s)) = leds s"
proof -
  from assms(2) have ne: "data \<noteq> []" by auto
  let ?t = "s\<lparr>total_bytes_received := total_bytes_received s + of_nat (length data),
               packets_received := packets_received s + 1\<rparr>"
  have "total_leds ?t \<le> be16 (data ! 1) (data ! 2)" using assms(3) by simp
  from cmd_set_pixel_beyond [OF assms(2) this] show ?thesis
    by (simp add: process_command_set_pixel [OF ne assms(1)])
qed

theorem set_pixel_out_of_range_ignored_witness:
  "[CMD_SET_PIXEL, 0x07, 0xD0, 255, 0, 0] ! 0 = CMD_SET_PIXEL \<and>
   6 \<le> length [CMD_SET_PIXEL, 0x07, 0xD0, 255, 0, 0] \<and>
   total_leds initial_engine \<le> be16 0x07 0xD0 \<and>
   leds (the (process_command [CMD_SET_PIXEL, 0x07, 0xD0, 255, 0, 0] initial_engine)) =
     leds initial_engine"
proof -
  have b: "be16 0x07 0xD0 = 2000" by (simp add: be16_def)
  have t: "total_leds initial_engine \<le> be16 ([CMD_SET_PIXEL, 0x07, 0xD0, 255, 0, 0] ! 1)
             ([CMD_SET_PIXEL, 0x07, 0xD0, 255, 0, 0] ! 2)"
    by (simp add: b initial_engine_def DEFAULT_STRIPS_def DEFAULT_LEDS_PER_STRIP_def)
  from set_pixel_out_of_range_ignored [OF _ _ t] t show ?thesis by simp
qed

text \<open>
  The write is not clamped: in the initial state index 2000 maps to the last active slot
  3639, and after \<open>CMD_SET_PIXEL\<close> for index 2000 with colour (255, 0, 0) slot 3639 does
  not hold that colour.
\<close>

theorem set_pixel_clamp_counterexample:
  "reachable initial_engine \<and>
   [CMD_SET_PIXEL, 0x07, 0xD0, 255, 0, 0] ! 0 = CMD_SET_PIXEL \<and>
   total_leds initial_engine \<le> be16 0x07 0xD0 \<and>
   logical_to_physical initial_engine (be16 0x07 0xD0) = Some 3639 \<and>
   process_command [CMD_SET_PIXEL, 0x07, 0xD0, 255, 0, 0] initial_engine \<noteq> None \<and>
   leds (the (process_command [CMD_SET_PIXEL, 0x07, 0xD0, 255, 0, 0] initial_engine)) ! 3639
     \<noteq> CRGB 255 0 0"
proof -
  let ?d = "[CMD_SET_PIXEL, 0x07, 0xD0, 255, 0, 0] :: u8 list"
  have b: "be16 0x07 0xD0 = 2000" by (simp add: be16_def)
  have t: "total_leds initial_engine \<le> 2000"
    by (simp add: initial_engine_def DEFAULT_STRIPS_def DEFAULT_LEDS_PER_STRIP_def)
  have m: "logical_to_physical initial_engine 2000 = Some 3639"
    by (simp add: logical_to_physical_def initial_engine_def DEFAULT_STRIPS_def
        DEFAULT_LEDS_PER_STRIP_def MAX_LEDS_PER_STRIP_def Let_def word_le_nat_alt unat_div)
  let ?t = "initial_engine\<lparr>total_bytes_received :=
                total_bytes_received initial_engine + of_nat (length ?d),
              packets_received := packets_received initial_engine + 1\<rparr>"
  have "total_leds ?t \<le> be16 (?d ! 1) (?d ! 2)" using t by (simp add: b)
  then have "cmd_set_pixel ?d ?t = Some ?t" by (intro cmd_set_pixel_beyond) simp_all
  then have run: "process_command ?d initial_engine = Some ?t"
    by (simp add: process_command_set_pixel)
  have "leds initial_engine ! 3639 = Black"
    by (simp add: initial_engine_def unat_MAX_TOTAL_LEDS)
  then have "leds (the (process_command ?d initial_engine)) ! 3639 \<noteq> CRGB 255 0 0"
    by (simp add: run Black_def)
  with run t m show ?thesis by (simp add: reachable.boot b)
qed

section \<open>CONFIG\<close>

lemma process_command_config_valid:
  assumes inv: "engine_inv s" and op: "data ! 0 = CMD_CONFIG" and len: "4 \<le> length data"
    and ok: "data ! 1 \<noteq> 0" "\<not> MAX_STRIPS < data ! 1"
      "be16 (data ! 2) (data ! 3) \<noteq> 0" "\<not> MAX_LEDS_PER_STRIP < be16 (data ! 2) (data ! 3)"
  shows "\<exists>s'. process_command data s = Some s' \<and> engine_inv s' \<and>
           active_strips s' = data ! 1 \<and> leds_per_strip s' = be16 (data ! 2) (data ! 3) \<and>
           (if active_strips s \<noteq> data ! 1 \<or> leds_per_strip s \<noteq> be16 (data ! 2) (data ! 3)
            then (\<forall>p<4000. leds s' ! p = Black) \<and>
                 tx s' = tx s @ response_frame RESP_OK ''CONFIG_CHANGED''
            else leds s' = leds s \<and> tx s' = tx s @ response_frame RESP_OK ''CONFIG_OK'')"
proof -
  let ?t = "s\<lparr>total_bytes_received := total_bytes_received s + of_nat (length data),
               packets_received := packets_received s + 1\<rparr>"
  from len have ne: "data \<noteq> []" by auto
  have run: "process_command data s = cmd_config data ?t"
    by (rule process_command_config [OF ne op])
  have invt: "engine_inv ?t" by (rule engine_inv_transfer [OF inv]) simp_all
  from cmd_config_inv [OF invt, of data] obtain s' where
    s': "cmd_config data ?t = Some s'" "engine_inv s'" by blast
  show ?thesis
  proof (cases "active_strips s \<noteq> data ! 1 \<or> leds_per_strip s \<noteq> be16 (data ! 2) (data ! 3)")
    case True
    then have d: "active_strips ?t \<noteq> data ! 1 \<or> leds_per_strip ?t \<noteq> be16 (data ! 2) (data ! 3)"
      by simp
    have l: "length (leds ?t) = 4000" using inv by (simp add: engine_inv_alt)
    from cmd_config_changed [OF len ok d l] s' True run show ?thesis by auto
  next
    case False
    then have e: "active_strips ?t = data ! 1" "leds_per_strip ?t = be16 (data ! 2) (data ! 3)"
      by simp_all
    from cmd_config_unchanged [OF len ok e] s' False run show ?thesis by auto
  qed
qed

text \<open>
  Claim C6. Processing a valid \<open>CMD_CONFIG\<close> command in a reachable state blacks the
  whole render buffer and answers \<open>CONFIG_CHANGED\<close> if the requested strip count or
  strip length differs from the current one, and otherwise leaves the render buffer as
  it is and answers \<open>CONFIG_OK\<close>; applying the same payload a second time always
  answers \<open>CONFIG_OK\<close> and leaves every pixel unmodified.
\<close>
theorem config_clears_iff_changed:
  assumes "reachable s" and "data ! 0 = CMD_CONFIG" and "4 \<le> length data"
    and "data ! 1 \<noteq> 0" and "\<not> MAX_STRIPS < data ! 1"
    and "be16 (data ! 2) (data ! 3) \<noteq> 0" and "\<not> MAX_LEDS_PER_STRIP < be16 (data ! 2) (data ! 3)"
  shows "\<exists>s'. process_command data s = Some s' \<and>
           (if active_strips s \<noteq> data ! 1 \<or> leds_per_strip s \<noteq> be16 (data ! 2) (data ! 3)
            then (\<forall>p < unat MAX_TOTAL_LEDS. leds s' ! p = Black) \<and>
                 tx s' = tx s @ response_frame RESP_OK ''CONFIG_CHANGED''
            else leds s' = leds s \<and> tx s' = tx s @ response_frame RESP_OK ''CONFIG_OK'') \<and>
           (\<exists>s''. process_command data s' = Some s'' \<and> leds s'' = leds s' \<and>
                  tx s'' = tx s' @ response_frame RESP_OK ''CONFIG_OK'')"
proof -
  note v = assms(2-7)
  from process_command_config_valid [OF reachable_inv [OF assms(1)] v] obtain s' where
    s': "process_command data s = Some s'" "engine_inv s'"
        "active_strips s' = data ! 1" "leds_per_strip s' = be16 (data ! 2) (data ! 3)"
        "if active_strips s \<noteq> data ! 1 \<or> leds_per_strip s \<noteq> be16 (data ! 2) (data ! 3)
         then (\<forall>p<4000. leds s' ! p = Black) \<and>
              tx s' = tx s @ response_frame RESP_OK ''CONFIG_CHANGED''
         else leds s' = leds s \<and> tx s' = tx s @ response_frame RESP_OK ''CONFIG_OK''"
    by blast
  from process_command_config_valid [OF s'(2) v] s'(3,4) obtain s'' where
    "process_command data s' = Some s''" "leds s'' = leds s'"
    "tx s'' = tx s' @ response_frame RESP_OK ''CONFIG_OK''" by auto
  with s'(1,5) show ?thesis by (auto simp: unat_MAX_TOTAL_LEDS)
qed

lemma be16_0_10: "be16 0 10 = 10"
  by (simp add: be16_def)

theorem config_clears_iff_changed_witness:
  "reachable initial_engine \<and> [CMD_CONFIG, 1, 0, 10] ! 0 = CMD_CONFIG \<and>
   4 \<le> length [CMD_CONFIG, 1, 0, 10] \<and> (1 :: u8) \<noteq> 0 \<and> \<not> MAX_STRIPS < 1 \<and>
   be16 0 10 \<noteq> 0 \<and> \<not> MAX_LEDS_PER_STRIP < be16 0 10 \<and>
   (\<exists>s'. process_command [CMD_CONFIG, 1, 0, 10] initial_engine = Some s' \<and>
         (\<forall>p < unat MAX_TOTAL_LEDS. leds s' ! p = Black) \<and>
         tx s' = tx initial_engine @ response_frame RESP_OK ''CONFIG_CHANGED'' \<and>
         (\<exists>s''. process_command [CMD_CONFIG, 1, 0, 10] s' = Some s'' \<and> leds s'' = leds s' \<and>
                tx s'' = tx s' @ response_frame RESP_OK ''CONFIG_OK''))"
proof -
  let ?d = "[CMD_CONFIG, 1, 0, 10] :: u8 list"
  have h: "?d ! 0 = CMD_CONFIG" "4 \<le> length ?d" "?d ! 1 \<noteq> 0" "\<not> MAX_STRIPS < ?d ! 1"
    "be16 (?d ! 2) (?d ! 3) \<noteq> 0" "\<not> MAX_LEDS_PER_STRIP < be16 (?d ! 2) (?d ! 3)"
    by (simp_all add: be16_0_10 MAX_STRIPS_def MAX_LEDS_PER_STRIP_def)
  have c: "active_strips initial_engine \<noteq> ?d ! 1"
    by (simp add: initial_engine_def DEFAULT_STRIPS_def)
  from config_clears_iff_changed [OF reachable.boot h] c h show ?thesis
    by (simp add: reachable.boot)
qed

text \<open>
  Claim C7. A \<open>CMD_CONFIG\<close> command that is too short (fewer than three bytes after the
  opcode), or whose strip count is outside \<open>[1, MAX_STRIPS]\<close>, or whose strip length is
  outside \<open>[1, MAX_LEDS_PER_STRIP]\<close>, emits an error response and leaves
  \<open>active_strips\<close>, \<open>leds_per_strip\<close>, \<open>total_leds\<close> and the render buffer unchanged.
\<close>
theorem config_invalid_no_mutation:
  assumes "data \<noteq> []" and "data ! 0 = CMD_CONFIG"
    and "length data < 4 \<or> data ! 1 = 0 \<or> MAX_STRIPS < data ! 1 \<or>
         be16 (data ! 2) (data ! 3) = 0 \<or> MAX_LEDS_PER_STRIP < be16 (data ! 2) (data ! 3)"
  shows "\<exists>s'. process_command data s = Some s' \<and>
           (\<exists>msg \<in> {''CONFIG_TOO_SHORT'', ''INVALID_STRIPS'', ''INVALID_LENGTH''}.
              tx s' = tx s @ response_frame RESP_ERROR msg) \<and>
           active_strips s' = active_strips s \<and> leds_per_strip s' = leds_per_strip s \<and>
           total_leds s' = total_leds s \<and> leds s' = leds s"
proof -
  let ?t = "s\<lparr>total_bytes_received := total_bytes_received s + of_nat (length data),
               packets_received := packets_received s + 1\<rparr>"
  from cmd_config_reject [OF assms(3), of ?t] obtain msg where
    m: "msg \<in> {''CONFIG_TOO_SHORT'', ''INVALID_STRIPS'', ''INVALID_LENGTH''}"
    and r: "cmd_config data ?t = Some (send_response RESP_ERROR msg
              (?t\<lparr>config_commands_received := config_commands_received ?t + 1\<rparr>))" by blast
  have "tx (send_response RESP_ERROR msg
              (?t\<lparr>config_commands_received := config_commands_received ?t + 1\<rparr>)) =
        tx s @ response_frame RESP_ERROR msg" by (simp add: send_response_def)
  with m r show ?thesis
    by (simp only: process_command_config [OF assms(1,2)]) (auto simp: send_response_def)
qed

theorem config_invalid_no_mutation_witness:
  "[CMD_CONFIG, 9, 0, 10] \<noteq> [] \<and> [CMD_CONFIG, 9, 0, 10] ! 0 = CMD_CONFIG \<and>
   MAX_STRIPS < [CMD_CONFIG, 9, 0, 10] ! 1 \<and>
   (\<exists>s'. process_command [CMD_CONFIG, 9, 0, 10] initial_engine = Some s' \<and>
         active_strips s' = active_strips initial_engine \<and>
         leds_per_strip s' = leds_per_strip initial_engine \<and>
         total_leds s' = total_leds initial_engine \<and> leds s' = leds initial_engine)"
proof -
  let ?d = "[CMD_CONFIG, 9, 0, 10] :: u8 list"
  have b: "MAX_STRIPS < ?d ! 1" by (simp add: MAX_STRIPS_def)
  then have h: "length ?d < 4 \<or> ?d ! 1 = 0 \<or> MAX_STRIPS < ?d ! 1 \<or>
         be16 (?d ! 2) (?d ! 3) = 0 \<or> MAX_LEDS_PER_STRIP < be16 (?d ! 2) (?d ! 3)" by blast
  have n: "?d \<noteq> []" and c: "?d ! 0 = CMD_CONFIG" by simp_all
  from config_invalid_no_mutation [OF n c h, of initial_engine] b n c show ?thesis by blast
qed

section \<open>Inactive strips stay black\<close>

text \<open>
  Claim C9. In every state reachable from the initial all-black render buffer, every
  physical slot on a strip index at or beyond \<open>active_strips\<close> is black; no pixel data of
  an earlier, larger layout survives on those strips.
\<close>
theorem inactive_strips_black:
  assumes "reachable s" and "p < unat MAX_TOTAL_LEDS"
    and "unat (active_strips s) \<le> p div unat MAX_LEDS_PER_STRIP"
  shows "leds s ! p = Black"
proof -
  from reachable_inv [OF assms(1)] have
    "\<forall>p<4000. \<not> in_active s p \<longrightarrow> leds s ! p = Black" by (simp add: engine_inv_alt)
  moreover have "\<not> in_active s p" using assms(3) by (simp add: in_active_def)
  ultimately show ?thesis using assms(2) by (simp add: unat_MAX_TOTAL_LEDS)
qed

theorem inactive_strips_black_witness:
  "reachable (the (process_command [CMD_CONFIG, 1, 0, 10]
       (the (process_command (CMD_SET_ALL # replicate 3360 255) initial_engine)))) \<and>
   3500 < unat MAX_TOTAL_LEDS \<and>
   unat (active_strips (the (process_command [CMD_CONFIG, 1, 0, 10]
       (the (process_command (CMD_SET_ALL # replicate 3360 255) initial_engine)))))
     \<le> 3500 div unat MAX_LEDS_PER_STRIP \<and>
   leds (the (process_command [CMD_CONFIG, 1, 0, 10]
       (the (process_command (CMD_SET_ALL # replicate 3360 255) initial_engine)))) ! 3500 = Black"
proof -
  let ?a = "CMD_SET_ALL # replicate 3360 (255 :: u8)"
  let ?d = "[CMD_CONFIG, 1, 0, 10] :: u8 list"
  from reachable_total [OF reachable.boot, of ?a] obtain s1 where
    s1: "process_command ?a initial_engine = Some s1" "reachable s1" by blast
  have h: "?d ! 0 = CMD_CONFIG" "4 \<le> length ?d" "?d ! 1 \<noteq> 0" "\<not> MAX_STRIPS < ?d ! 1"
    "be16 (?d ! 2) (?d ! 3) \<noteq> 0" "\<not> MAX_LEDS_PER_STRIP < be16 (?d ! 2) (?d ! 3)"
    by (simp_all add: be16_0_10 MAX_STRIPS_def MAX_LEDS_PER_STRIP_def)
  from process_command_config_valid [OF reachable_inv [OF s1(2)] h] obtain s2 where
    s2: "process_command ?d s1 = Some s2" "active_strips s2 = 1" by auto
  have r: "reachable s2" by (rule reachable.command [OF s1(2) s2(1)])
  have b: "3500 < unat MAX_TOTAL_LEDS" by (simp add: unat_MAX_TOTAL_LEDS)
  have c: "unat (active_strips s2) \<le> 3500 div unat MAX_LEDS_PER_STRIP"
    by (simp add: s2(2) unat_MAX_LEDS_PER_STRIP)
  from inactive_strips_black [OF r b c] r b c show ?thesis by (simp add: s1(1) s2(1))
qed

section \<open>Framed-stream resynchronisation\<close>

lemma le16_roundtrip:
  "ucast (ucast (n AND 0xFF) :: u8) OR push_bit 8 (ucast (ucast (drop_bit 8 n) :: u8)) = (n :: u16)"
proof -
  have m: "(0xFF :: u16) = mask 8" by (simp add: mask_eq_exp_minus_1)
  show ?thesis unfolding m
  proof (rule bit_eqI)
    fix k
    assume "possible_bit TYPE(u16) k"
    show "bit (ucast (ucast (n AND mask 8) :: u8) OR push_bit 8 (ucast (ucast (drop_bit 8 n) :: u8)) :: u16) k
            \<longleftrightarrow> bit n k"
      by (cases "k < 8") (auto simp: bit_simps dest: bit_imp_le_length)
  qed
qed

lemma frame_length_decodes:
  assumes "length payload \<le> MAX_PACKET_SIZE"
  shows "unat (ucast (ucast ((of_nat (length payload) :: u16) AND 0xFF) :: u8) OR
               push_bit 8 (ucast (ucast (drop_bit 8 (of_nat (length payload) :: u16)) :: u8)) :: u16)
         = length payload"
proof -
  have "length payload < 65536" using assms by (simp add: MAX_PACKET_SIZE_eq)
  then show ?thesis by (simp only: le16_roundtrip unat_u16_small)
qed

lemma loop_skips_spurious:
  assumes "b \<noteq> PACKET_START" and "3 \<le> length rest"
  shows "loop (s, b # rest) = Some (s\<lparr>packet_errors := packet_errors s + 1\<rparr>, rest)"
  using assms by (simp add: loop_def Let_def)

lemma loop_reads_frame:
  assumes "length payload \<le> MAX_PACKET_SIZE"
  shows "loop (s, frame_packet payload @ rest) =
           map_option (\<lambda>s'. (s', rest)) (process_command payload s)"
proof -
  let ?n = "of_nat (length payload) :: u16"
  let ?lo = "ucast (?n AND 0xFF) :: u8" and ?hi = "ucast (drop_bit 8 ?n) :: u8"
  have f: "frame_packet payload @ rest = PACKET_START # ?lo # ?hi # payload @ PACKET_END # rest"
    by (simp add: frame_packet_def Let_def)
  have n: "unat (ucast ?lo OR push_bit 8 (ucast ?hi) :: u16) = length payload"
    by (rule frame_length_decodes [OF assms])
  show ?thesis
    unfolding f loop_def Let_def using assms by (simp add: n nth_append)
qed

lemma loop_reachable:
  assumes "reachable s" and "loop (s, rx) = Some (s', rx')"
  shows "reachable s'"
  using assms
  by (auto simp: loop_def Let_def split: if_splits
      intro: reachable.framing_error reachable.command)

lemma frame_packet_length: "length (frame_packet payload) = length payload + 4"
  by (simp add: frame_packet_def Let_def)

text \<open>
  Claim C8. In framed-stream mode, when the receive buffer holds one byte that is not
  the start marker followed by a well-formed packet, the first pass of \<open>loop()\<close> discards
  the spurious byte and adds exactly one to the packet-error counter, leaving the packet
  in the buffer; the next pass consumes the whole packet and hands its payload to
  \<open>process_command\<close>, which completes.
\<close>
theorem framing_resync:
  assumes "reachable s" and "b \<noteq> PACKET_START" and "length payload \<le> MAX_PACKET_SIZE"
  shows "\<exists>s'. loop (s, b # frame_packet payload) =
                Some (s\<lparr>packet_errors := packet_errors s + 1\<rparr>, frame_packet payload) \<and>
              process_command payload (s\<lparr>packet_errors := packet_errors s + 1\<rparr>) = Some s' \<and>
              loop (s\<lparr>packet_errors := packet_errors s + 1\<rparr>, frame_packet payload) =
                Some (s', [])"
proof -
  let ?s1 = "s\<lparr>packet_errors := packet_errors s + 1\<rparr>"
  have "3 \<le> length (frame_packet payload)" by (simp add: frame_packet_length)
  from loop_skips_spurious [OF assms(2) this]
  have first: "loop (s, b # frame_packet payload) = Some (?s1, frame_packet payload)" .
  have "reachable ?s1" by (rule reachable.framing_error [OF assms(1)])
  from reachable_total [OF this, of payload] obtain s' where
    s': "process_command payload ?s1 = Some s'" by blast
  from loop_reads_frame [OF assms(3), of ?s1 "[]"] s'
  have "loop (?s1, frame_packet payload) = Some (s', [])" by simp
  with first s' show ?thesis by simp
qed

theorem framing_resync_witness:
  "reachable initial_engine \<and> (0 :: u8) \<noteq> PACKET_START \<and>
   length [CMD_SHOW] \<le> MAX_PACKET_SIZE \<and>
   frame_packet [CMD_SHOW] = [0xAA, 1, 0, 0x03, 0x55] \<and>
   (\<exists>s'. loop (initial_engine, 0 # frame_packet [CMD_SHOW]) =
           Some (initial_engine\<lparr>packet_errors := packet_errors initial_engine + 1\<rparr>,
                 frame_packet [CMD_SHOW]) \<and>
         loop (initial_engine\<lparr>packet_errors := packet_errors initial_engine + 1\<rparr>,
               frame_packet [CMD_SHOW]) = Some (s', []))"
proof -
  have b: "(0 :: u8) \<noteq> PACKET_START" by (simp add: PACKET_START_def)
  have l: "length [CMD_SHOW] \<le> MAX_PACKET_SIZE" by (simp add: MAX_PACKET_SIZE_eq)
  have f: "frame_packet [CMD_SHOW] = [0xAA, 1, 0, 0x03, 0x55]"
    by (simp add: frame_packet_def Let_def PACKET_START_def PACKET_END_def CMD_SHOW_def)
  from framing_resync [OF reachable.boot b l] obtain s' where
    "loop (initial_engine, 0 # frame_packet [CMD_SHOW]) =
       Some (initial_engine\<lparr>packet_errors := packet_errors initial_engine + 1\<rparr>,
             frame_packet [CMD_SHOW])"
    "loop (initial_engine\<lparr>packet_errors := packet_errors initial_engine + 1\<rparr>,
           frame_packet [CMD_SHOW]) = Some (s', [])" by blast
  with b l f reachable.boot show ?thesis by blast
qed

end
